theory Spec2Isabelle
  imports Main "HOL-Library.Word"
begin

section \<open>The page as the scripts see it\<close>

text \<open>
  The scripts of the repository (\<^verbatim>\<open>static/js/main.js\<close> and its variants) run in a
  browser page. They read the element tree, call a handful of DOM operations
  (\<^verbatim>\<open>getElementById\<close>, \<^verbatim>\<open>querySelector\<close>, \<^verbatim>\<open>querySelectorAll\<close>, \<^verbatim>\<open>focus\<close>,
  \<^verbatim>\<open>addEventListener\<close>, \<^verbatim>\<open>setTimeout\<close>, \<^verbatim>\<open>click\<close>, \<^verbatim>\<open>remove\<close>, \<^verbatim>\<open>form.submit\<close>) and
  write two style properties. The page is modelled as an explicit state that every
  operation takes and returns.

  An element is an object: closures keep a reference to it, also after it has left the
  tree. So elements are named by a handle, their properties live in a store, and the
  tree holds handles only.
\<close>

type_synonym handle = nat

text \<open>
  A JavaScript string is a sequence of UTF-16 code units and \<^verbatim>\<open>.length\<close> counts them.
\<close>

type_synonym js_string = "16 word list"

definition utf16 :: "string \<Rightarrow> js_string" where
  "utf16 cs = map (\<lambda>c. of_nat (of_char c)) cs"

record element =
  el_tag :: string
  el_id :: "string option"
  el_pattern :: "string option"
  el_maxlength :: "string option"
  el_class :: "string list"
  el_value :: js_string
  el_form :: "handle option"
  el_transition :: string
  el_opacity :: string
  el_focusable :: bool

text \<open>
  \<open>el_focusable\<close> is the browser's verdict on the element: whether it is a focusable
  area. An enabled, rendered text input is one; a disabled input, an input of type
  \<^verbatim>\<open>hidden\<close>, an element that is not rendered and a \<^verbatim>\<open>div\<close> without \<^verbatim>\<open>tabindex\<close> are not.
\<close>

datatype tree = Tree handle "tree list"

fun tree_root :: "tree \<Rightarrow> handle" where
  "tree_root (Tree h ks) = h"

text \<open>
  The callbacks the scripts hand to \<^verbatim>\<open>setTimeout\<close>, each with the element its closure
  captured, and the one listener they hand to \<^verbatim>\<open>addEventListener('input', ...)\<close>.
\<close>

datatype action =
    SubmitForm handle
  | DismissFlash handle
  | RemoveElement handle

datatype listener = AutoSubmit

datatype js_error = TypeError

record page =
  roots :: "tree list"
  props :: "handle \<Rightarrow> element"
  detached :: "handle list"
  active :: "handle option"
  listeners :: "(handle \<times> listener) list"
  timers :: "(nat \<times> action) list"
  now :: nat
  submitted :: "handle list"
  clicked :: "handle list"
  errors :: "js_error list"

text \<open>
  Tree order. \<open>detached\<close> lists the elements whose link to their parent has been severed by
  \<^verbatim>\<open>remove()\<close>: a traversal does not enter them from above, but their own subtree stays
  reachable from a reference to them.
\<close>

fun subtree_handles :: "handle list \<Rightarrow> tree \<Rightarrow> handle list"
  and forest_handles :: "handle list \<Rightarrow> tree list \<Rightarrow> handle list" where
  "subtree_handles dt (Tree h ks) = h # forest_handles dt ks"
| "forest_handles dt [] = []"
| "forest_handles dt (k # ks) =
     (if tree_root k \<in> set dt then [] else subtree_handles dt k) @ forest_handles dt ks"

fun find_tree :: "handle \<Rightarrow> tree \<Rightarrow> tree option"
  and find_forest :: "handle \<Rightarrow> tree list \<Rightarrow> tree option" where
  "find_tree h (Tree g ks) = (if g = h then Some (Tree g ks) else find_forest h ks)"
| "find_forest h [] = None"
| "find_forest h (k # ks) =
     (case find_tree h k of Some t \<Rightarrow> Some t | None \<Rightarrow> find_forest h ks)"

definition document_elements :: "page \<Rightarrow> handle list" where
  "document_elements s = forest_handles (detached s) (roots s)"

definition descendants :: "page \<Rightarrow> handle \<Rightarrow> handle list" where
  "descendants s h =
     (case find_forest h (roots s) of
        None \<Rightarrow> []
      | Some (Tree g ks) \<Rightarrow> forest_handles (detached s) ks)"

subsection \<open>The DOM operations the scripts call\<close>

text \<open>
  The three selectors of the source: \<^verbatim>\<open>input[pattern="..."]\<close>, \<^verbatim>\<open>input[maxlength="..."]\<close>
  and a class selector.
\<close>

datatype selector =
    InputPattern string
  | InputMaxlength string
  | HasClass string

fun matches :: "selector \<Rightarrow> element \<Rightarrow> bool" where
  "matches (InputPattern p) e = (el_tag e = ''input'' \<and> el_pattern e = Some p)"
| "matches (InputMaxlength m) e = (el_tag e = ''input'' \<and> el_maxlength e = Some m)"
| "matches (HasClass c) e = (c \<in> set (el_class e))"

text \<open>
  The queries return the first match in tree order, or \<^verbatim>\<open>null\<close> (\<open>None\<close>).
  What the browser does after \<^verbatim>\<open>form.submit()\<close> (it navigates) and after \<^verbatim>\<open>click()\<close>
  (it runs the click handlers of other scripts) lies outside the repository: the page
  records the forms submitted and the elements clicked, in order. \<^verbatim>\<open>focus()\<close> makes the
  element the active element if it is focusable and does nothing otherwise. An exception that leaves a callback is recorded in
  \<open>errors\<close>; the event loop goes on.
\<close>

definition getElementById :: "string \<Rightarrow> page \<Rightarrow> handle option" where
  "getElementById i s = find (\<lambda>h. el_id (props s h) = Some i) (document_elements s)"

definition querySelector :: "selector \<Rightarrow> page \<Rightarrow> handle option" where
  "querySelector sel s = find (\<lambda>h. matches sel (props s h)) (document_elements s)"

definition querySelectorAll :: "selector \<Rightarrow> page \<Rightarrow> handle list" where
  "querySelectorAll sel s = filter (\<lambda>h. matches sel (props s h)) (document_elements s)"

definition querySelectorIn :: "handle \<Rightarrow> selector \<Rightarrow> page \<Rightarrow> handle option" where
  "querySelectorIn m sel s = find (\<lambda>h. matches sel (props s h)) (descendants s m)"

definition focus :: "handle \<Rightarrow> page \<Rightarrow> page" where
  "focus h s = (if el_focusable (props s h) then s\<lparr>active := Some h\<rparr> else s)"

definition addEventListener :: "handle \<Rightarrow> listener \<Rightarrow> page \<Rightarrow> page" where
  "addEventListener h l s = s\<lparr>listeners := listeners s @ [(h, l)]\<rparr>"

definition setTimeout :: "action \<Rightarrow> nat \<Rightarrow> page \<Rightarrow> page" where
  "setTimeout a d s = s\<lparr>timers := timers s @ [(now s + d, a)]\<rparr>"

definition submit :: "handle \<Rightarrow> page \<Rightarrow> page" where
  "submit f s = s\<lparr>submitted := submitted s @ [f]\<rparr>"

definition click :: "handle \<Rightarrow> page \<Rightarrow> page" where
  "click b s = s\<lparr>clicked := clicked s @ [b]\<rparr>"

definition throw :: "js_error \<Rightarrow> page \<Rightarrow> page" where
  "throw e s = s\<lparr>errors := errors s @ [e]\<rparr>"

definition remove :: "handle \<Rightarrow> page \<Rightarrow> page" where
  "remove m s = s\<lparr>detached := List.insert m (detached s)\<rparr>"

definition set_transition :: "handle \<Rightarrow> string \<Rightarrow> page \<Rightarrow> page" where
  "set_transition m v s = s\<lparr>props := (props s)(m := (props s m)\<lparr>el_transition := v\<rparr>)\<rparr>"

definition set_opacity :: "handle \<Rightarrow> string \<Rightarrow> page \<Rightarrow> page" where
  "set_opacity m v s = s\<lparr>props := (props s)(m := (props s m)\<lparr>el_opacity := v\<rparr>)\<rparr>"

definition set_value :: "handle \<Rightarrow> js_string \<Rightarrow> page \<Rightarrow> page" where
  "set_value h v s = s\<lparr>props := (props s)(h := (props s h)\<lparr>el_value := v\<rparr>)\<rparr>"

section \<open>The scripts\<close>

subsection \<open>Looking the code input up\<close>

text \<open>
  \<^verbatim>\<open>
  let codeInput = document.getElementById('code');
  if (!codeInput) { codeInput = document.querySelector('input[pattern="[0-9]{6}"]'); }
  if (!codeInput) { codeInput = document.querySelector('input[maxlength="6"]'); }
  \<close>
\<close>

definition find_code_input :: "page \<Rightarrow> handle option" where
  "find_code_input s =
     (let codeInput = getElementById ''code'' s;
          codeInput = (if codeInput = None
                       then querySelector (InputPattern ''[0-9]{6}'') s else codeInput);
          codeInput = (if codeInput = None
                       then querySelector (InputMaxlength ''6'') s else codeInput)
      in codeInput)"

subsection \<open>The page-ready handlers\<close>

definition auto_focus_handler :: "page \<Rightarrow> page" where
  "auto_focus_handler s =
     (case find_code_input s of None \<Rightarrow> s | Some codeInput \<Rightarrow> focus codeInput s)"

definition auto_submit_handler :: "page \<Rightarrow> page" where
  "auto_submit_handler s =
     (case find_code_input s of
        None \<Rightarrow> s
      | Some codeInput \<Rightarrow> addEventListener codeInput AutoSubmit s)"

definition flash_handler :: "page \<Rightarrow> page" where
  "flash_handler s =
     fold (\<lambda>message. setTimeout (DismissFlash message) (5 * 60 * 1000))
       (querySelectorAll (HasClass ''alert-error'') s) s"

subsection \<open>The callbacks\<close>

text \<open>
  The input listener: \<^verbatim>\<open>if (e.target.value.length === 6) setTimeout(..., 500)\<close>.
\<close>

fun run_listener :: "listener \<Rightarrow> handle \<Rightarrow> page \<Rightarrow> page" where
  "run_listener AutoSubmit target s =
     (if length (el_value (props s target)) = 6
      then setTimeout (SubmitForm target) 500 s else s)"

text \<open>
  The timer callbacks. \<^verbatim>\<open>e.target.form.submit()\<close> reads the property \<^verbatim>\<open>submit\<close> of
  \<^verbatim>\<open>e.target.form\<close>, which is \<^verbatim>\<open>null\<close> for an input with no owning form: a TypeError.
\<close>

fun run_action :: "action \<Rightarrow> page \<Rightarrow> page" where
  "run_action (SubmitForm target) s =
     (case el_form (props s target) of
        None \<Rightarrow> throw TypeError s
      | Some f \<Rightarrow> submit f s)"
| "run_action (DismissFlash message) s =
     (case querySelectorIn message (HasClass ''btn-close'') s of
        Some closeButton \<Rightarrow> click closeButton s
      | None \<Rightarrow>
          setTimeout (RemoveElement message) 500
            (set_opacity message ''0'' (set_transition message ''opacity 0.5s'' s)))"
| "run_action (RemoveElement message) s = remove message s"

subsection \<open>The three variants of the script\<close>

text \<open>
  \<open>main_js\<close> is \<^verbatim>\<open>static/js/main.js\<close>: focus and auto-submit. \<open>focus_only_js\<close> is the
  variant whose auto-submit is disabled (``Auto-submit disabled to prevent CSRF token
  issues''), and the documented variant with the same single handler.
  \<open>main_flash_js\<close> is the variant that also hides the error flash messages.
\<close>

definition main_js :: "(page \<Rightarrow> page) list" where
  "main_js = [auto_focus_handler, auto_submit_handler]"

definition focus_only_js :: "(page \<Rightarrow> page) list" where
  "focus_only_js = [auto_focus_handler]"

definition main_flash_js :: "(page \<Rightarrow> page) list" where
  "main_flash_js = [auto_focus_handler, auto_submit_handler, flash_handler]"

section \<open>The event loop\<close>

text \<open>
  \<^verbatim>\<open>DOMContentLoaded\<close> runs the registered handlers in the order of registration.
\<close>

definition dom_content_loaded :: "(page \<Rightarrow> page) list \<Rightarrow> page \<Rightarrow> page" where
  "dom_content_loaded script s = fold (\<lambda>handler. handler) script s"

text \<open>
  An input event: the user has changed the value of element \<open>h\<close> to \<open>v\<close>; the listeners
  registered on \<open>h\<close> run in the order of registration with \<^verbatim>\<open>e.target\<close> \<open>= h\<close>.
\<close>

definition input_event :: "handle \<Rightarrow> js_string \<Rightarrow> page \<Rightarrow> page" where
  "input_event h v s =
     (let s1 = set_value h v s
      in fold (\<lambda>(g, l) s2. if g = h then run_listener l h s2 else s2) (listeners s1) s1)"

text \<open>
  Timers are one-shot. The pending timer that is due first runs first; of two with the
  same due time the one scheduled first.
\<close>

fun earliest :: "(nat \<times> action) list \<Rightarrow> (nat \<times> action) option" where
  "earliest [] = None"
| "earliest (x # xs) =
     (case earliest xs of
        None \<Rightarrow> Some x
      | Some y \<Rightarrow> if fst y < fst x then Some y else Some x)"

definition fire :: "nat \<times> action \<Rightarrow> page \<Rightarrow> page" where
  "fire x s =
     run_action (snd x) (s\<lparr>timers := remove1 x (timers s), now := max (now s) (fst x)\<rparr>)"

fun weight :: "action \<Rightarrow> nat" where
  "weight (DismissFlash m) = 2"
| "weight (SubmitForm t) = 1"
| "weight (RemoveElement m) = 1"

definition pending_weight :: "page \<Rightarrow> nat" where
  "pending_weight s = sum_list (map (\<lambda>x. weight (snd x)) (timers s))"

text \<open>
  Letting time pass up to the instant \<open>t\<close>: every pending timer due by then runs, also
  those scheduled meanwhile by a callback, then the clock stands at \<open>t\<close>. A callback
  schedules at most one further timer, whose own callback schedules none, so the loop
  ends.
\<close>

function run_until :: "nat \<Rightarrow> page \<Rightarrow> page" where
  "run_until t s =
     (case earliest (timers s) of
        None \<Rightarrow> s\<lparr>now := max (now s) t\<rparr>
      | Some x \<Rightarrow>
          if fst x \<le> t then run_until t (fire x s) else s\<lparr>now := max (now s) t\<rparr>)"
  by pat_completeness auto
termination
proof (relation "measure (\<lambda>(t, s). pending_weight s)")
  show "wf (measure (\<lambda>(t, s). pending_weight s))"
    by simp
next
  fix t :: nat and s :: page and x :: "nat \<times> action"
  assume e: "earliest (timers s) = Some x"
  have mem: "y \<in> set ys" if "earliest ys = Some y" for y ys
    using that by (induction ys arbitrary: y) (auto split: option.splits if_splits)
  let ?s = "s\<lparr>timers := remove1 x (timers s), now := max (now s) (fst x)\<rparr>"
  have "pending_weight ?s + weight (snd x) = pending_weight s"
    using mem [OF e] by (simp add: pending_weight_def sum_list_map_remove1)
  moreover have "pending_weight (run_action a u) < pending_weight u + weight a" for a u
    by (cases a)
       (auto simp: pending_weight_def throw_def submit_def click_def setTimeout_def
          set_opacity_def set_transition_def remove_def split: option.splits)
  then have "pending_weight (fire x s) < pending_weight ?s + weight (snd x)"
    unfolding fire_def .
  ultimately show "((t, fire x s), (t, s)) \<in> measure (\<lambda>(t, s). pending_weight s)"
    by simp
qed

definition elapse :: "nat \<Rightarrow> page \<Rightarrow> page" where
  "elapse d s = run_until (now s + d) s"

text \<open>What happens to a page after it is ready: the user edits a field, or time passes.\<close>

datatype event = Input handle js_string | Elapse nat

fun apply_event :: "event \<Rightarrow> page \<Rightarrow> page" where
  "apply_event (Input h v) s = input_event h v s"
| "apply_event (Elapse d) s = elapse d s"

definition run_events :: "event list \<Rightarrow> page \<Rightarrow> page" where
  "run_events es s = fold apply_event es s"

text \<open>A freshly parsed page: nothing focused, attached, scheduled or submitted yet.\<close>

definition load :: "tree list \<Rightarrow> (handle \<Rightarrow> element) \<Rightarrow> page" where
  "load ts ps =
     \<lparr>roots = ts, props = ps, detached = [], active = None, listeners = [], timers = [],
      now = 0, submitted = [], clicked = [], errors = []\<rparr>"

section \<open>Notions the properties are stated with\<close>

text \<open>The pending timers whose callback submits the form of field \<open>h\<close>.\<close>

definition pending_submits :: "handle \<Rightarrow> page \<Rightarrow> (nat \<times> action) list" where
  "pending_submits h s = filter (\<lambda>x. snd x = SubmitForm h) (timers s)"

text \<open>
  Of a run of events: the time that passes in it, and the number of input events in it
  that leave a value of length exactly 6 in field \<open>h\<close> and are, at the end of the run,
  less than 500 ms old.
\<close>

fun elapsed :: "event list \<Rightarrow> nat" where
  "elapsed [] = 0"
| "elapsed (Input g v # es) = elapsed es"
| "elapsed (Elapse d # es) = d + elapsed es"

fun recent_completions :: "handle \<Rightarrow> event list \<Rightarrow> nat" where
  "recent_completions h [] = 0"
| "recent_completions h (Input g v # es) =
     (if g = h \<and> length v = 6 \<and> elapsed es < 500 then 1 else 0) + recent_completions h es"
| "recent_completions h (Elapse d # es) = recent_completions h es"



text \<open>
  Of the error flash messages of a page: the close buttons that their dismissals
  click, one for each message that holds one, and the messages that hold none.
\<close>

definition error_messages :: "page \<Rightarrow> handle list" where
  "error_messages s = querySelectorAll (HasClass ''alert-error'') s"

definition close_button :: "page \<Rightarrow> handle \<Rightarrow> handle option" where
  "close_button s m = querySelectorIn m (HasClass ''btn-close'') s"

definition close_buttons :: "page \<Rightarrow> handle list" where
  "close_buttons s = List.map_filter (close_button s) (error_messages s)"

definition bare_messages :: "page \<Rightarrow> handle list" where
  "bare_messages s = filter (\<lambda>m. close_button s m = None) (error_messages s)"

definition is_digit :: "16 word \<Rightarrow> bool" where
  "is_digit u = (0x30 \<le> u \<and> u \<le> 0x39)"

text \<open>
  The lookup as the specification words it: an ordered list of rules, the first rule
  that finds an element wins.
\<close>

fun first_match :: "(page \<Rightarrow> handle option) list \<Rightarrow> page \<Rightarrow> handle option" where
  "first_match [] s = None"
| "first_match (rule # rules) s =
     (case rule s of Some h \<Rightarrow> Some h | None \<Rightarrow> first_match rules s)"

definition lookup_rules :: "(page \<Rightarrow> handle option) list" where
  "lookup_rules =
     [getElementById ''code'',
      querySelector (InputPattern ''[0-9]{6}''),
      querySelector (InputMaxlength ''6'')]"

section \<open>Example pages\<close>

definition blank :: element where
  "blank =
     \<lparr>el_tag = ''div'', el_id = None, el_pattern = None, el_maxlength = None,
      el_class = [], el_value = [], el_form = None, el_transition = [], el_opacity = [],
      el_focusable = False\<rparr>"

definition text_input :: element where
  "text_input = blank\<lparr>el_tag := ''input'', el_focusable := True\<rparr>"

text \<open>
  The verification page: a form (10) holding a 6-digit pattern input (11) and, after
  it, the input with identifier \<^verbatim>\<open>code\<close> (12).
\<close>

definition verify_props :: "handle \<Rightarrow> element" where
  "verify_props =
     (\<lambda>h. blank)
       (10 := blank\<lparr>el_tag := ''form''\<rparr>,
        11 := text_input\<lparr>el_pattern := Some ''[0-9]{6}'', el_form := Some 10\<rparr>,
        12 := text_input\<lparr>el_id := Some ''code'', el_form := Some 10\<rparr>)"

definition verify_page :: page where
  "verify_page = load [Tree 10 [Tree 11 [], Tree 12 []]] verify_props"

text \<open>
  A page without the identifier: a 6-character input (51) and, after it, a 6-digit
  pattern input (52). And a page with a 6-character input (61) only.
\<close>

definition backup_props :: "handle \<Rightarrow> element" where
  "backup_props =
     (\<lambda>h. blank)
       (50 := blank\<lparr>el_tag := ''form''\<rparr>,
        51 := text_input\<lparr>el_maxlength := Some ''6'', el_form := Some 50\<rparr>,
        52 := text_input\<lparr>el_pattern := Some ''[0-9]{6}'', el_form := Some 50\<rparr>)"

definition backup_page :: page where
  "backup_page = load [Tree 50 [Tree 51 [], Tree 52 []]] backup_props"

definition short_props :: "handle \<Rightarrow> element" where
  "short_props =
     (\<lambda>h. blank)
       (60 := blank\<lparr>el_tag := ''form''\<rparr>,
        61 := text_input\<lparr>el_maxlength := Some ''6'', el_form := Some 60\<rparr>)"

definition short_page :: page where
  "short_page = load [Tree 60 [Tree 61 []]] short_props"

text \<open>A page whose code input (21) stands outside any form.\<close>

definition formless_props :: "handle \<Rightarrow> element" where
  "formless_props =
     (\<lambda>h. blank)
       (21 := text_input\<lparr>el_id := Some ''code'', el_maxlength := Some ''6''\<rparr>)"

definition formless_page :: page where
  "formless_page = load [Tree 20 [Tree 21 []]] formless_props"

text \<open>A page whose code input (81) is disabled.\<close>

definition disabled_props :: "handle \<Rightarrow> element" where
  "disabled_props =
     (\<lambda>h. blank)
       (80 := blank\<lparr>el_tag := ''form''\<rparr>,
        81 := blank\<lparr>el_tag := ''input'', el_id := Some ''code'', el_form := Some 80\<rparr>)"

definition disabled_page :: page where
  "disabled_page = load [Tree 80 [Tree 81 []]] disabled_props"



text \<open>A page with no code input: a search form (30) with a text input (31).\<close>

definition plain_props :: "handle \<Rightarrow> element" where
  "plain_props =
     (\<lambda>h. blank)
       (30 := blank\<lparr>el_tag := ''form''\<rparr>,
        31 := text_input\<lparr>el_id := Some ''q'', el_maxlength := Some ''60'',
                el_form := Some 30\<rparr>)"

definition plain_page :: page where
  "plain_page = load [Tree 30 [Tree 31 []]] plain_props"

text \<open>
  A page with two error flash messages: 41 holds a close button (42), 43 holds none.
\<close>

definition flash_props :: "handle \<Rightarrow> element" where
  "flash_props =
     (\<lambda>h. blank)
       (41 := blank\<lparr>el_class := [''alert'', ''alert-error'']\<rparr>,
        42 := blank\<lparr>el_tag := ''button'', el_class := [''btn-close'']\<rparr>,
        43 := blank\<lparr>el_class := [''alert'', ''alert-error'']\<rparr>)"

definition flash_page :: page where
  "flash_page = load [Tree 40 [Tree 41 [Tree 42 []], Tree 43 []]] flash_props"

section \<open>Basic facts\<close>

subsection \<open>Finding the first match\<close>

lemma find_Some_holds: "find P xs = Some x \<Longrightarrow> P x \<and> x \<in> set xs"
  by (auto simp: find_Some_iff)

lemma find_exists: "x \<in> set xs \<Longrightarrow> P x \<Longrightarrow> \<exists>y. find P xs = Some y"
  by (cases "find P xs") (auto simp: find_None_iff)

lemma find_only:
  "x \<in> set xs \<Longrightarrow> P x \<Longrightarrow> (\<forall>y\<in>set xs. P y \<longrightarrow> y = x) \<Longrightarrow> find P xs = Some x"
proof (induction xs)
  case Nil
  then show ?case by simp
next
  case (Cons a xs)
  show ?case
  proof (cases "P a")
    case True
    have "a \<in> set (a # xs)" by simp
    with Cons.prems(3) True have "a = x" by blast
    with True show ?thesis by simp
  next
    case False
    with Cons.prems(1,2) have "x \<in> set xs" by auto
    moreover have "\<forall>y\<in>set xs. P y \<longrightarrow> y = x"
    proof (intro ballI impI)
      fix y assume "y \<in> set xs" and "P y"
      then have "y \<in> set (a # xs)" by simp
      with Cons.prems(3) \<open>P y\<close> show "y = x" by blast
    qed
    ultimately have "find P xs = Some x"
      using Cons.IH Cons.prems(2) by blast
    with False show ?thesis by simp
  qed
qed

subsection \<open>The lookup\<close>

lemma find_code_input_first_match: "find_code_input s = first_match lookup_rules s"
  by (simp add: find_code_input_def lookup_rules_def Let_def split: option.splits)

lemma find_code_input_none:
  assumes "\<forall>h\<in>set (document_elements s).
             el_id (props s h) \<noteq> Some ''code''
             \<and> \<not> matches (InputPattern ''[0-9]{6}'') (props s h)
             \<and> \<not> matches (InputMaxlength ''6'') (props s h)"
  shows "find_code_input s = None"
proof -
  have "getElementById ''code'' s = None"
    using assms by (simp add: getElementById_def find_None_iff)
  moreover have "querySelector (InputPattern ''[0-9]{6}'') s = None"
    using assms by (simp add: querySelector_def find_None_iff)
  moreover have "querySelector (InputMaxlength ''6'') s = None"
    using assms by (simp add: querySelector_def find_None_iff)
  ultimately show ?thesis
    by (simp add: find_code_input_def)
qed

lemma find_code_input_by_id:
  assumes "h \<in> set (document_elements s)" and "el_id (props s h) = Some ''code''"
    and "\<forall>g\<in>set (document_elements s). el_id (props s g) = Some ''code'' \<longrightarrow> g = h"
  shows "find_code_input s = Some h"
proof -
  have "getElementById ''code'' s = Some h"
    unfolding getElementById_def
    by (rule find_only [where P = "\<lambda>g. el_id (props s g) = Some ''code''",
          OF assms(1) assms(2) assms(3)])
  then show ?thesis
    by (simp add: find_code_input_def)
qed

text \<open>The lookup reads the tree and the properties of the elements only.\<close>

lemma find_code_input_cong:
  assumes "roots t = roots s" and "detached t = detached s" and "props t = props s"
  shows "find_code_input t = find_code_input s"
proof -
  have "getElementById i t = getElementById i s" for i
    using assms by (simp add: getElementById_def document_elements_def)
  moreover have "querySelector sel t = querySelector sel s" for sel
    using assms by (simp add: querySelector_def document_elements_def)
  ultimately show ?thesis
    by (simp add: find_code_input_def Let_def cong: if_cong)
qed

lemma find_code_input_upd [simp]:
  "find_code_input (s\<lparr>active := a\<rparr>) = find_code_input s"
  "find_code_input (s\<lparr>listeners := ls\<rparr>) = find_code_input s"
  "find_code_input (s\<lparr>timers := ts\<rparr>) = find_code_input s"
  by (rule find_code_input_cong; simp)+

lemma focus_fields [simp]:
  "listeners (focus h s) = listeners s"
  "timers (focus h s) = timers s"
  "now (focus h s) = now s"
  "props (focus h s) = props s"
  "submitted (focus h s) = submitted s"
  "errors (focus h s) = errors s"
  "clicked (focus h s) = clicked s"
  "detached (focus h s) = detached s"
  "roots (focus h s) = roots s"
  by (simp_all add: focus_def)

lemma find_code_input_focus [simp]: "find_code_input (focus h s) = find_code_input s"
  by (rule find_code_input_cong) simp_all

lemma find_code_input_auto_focus [simp]:
  "find_code_input (auto_focus_handler s) = find_code_input s"
  by (simp add: auto_focus_handler_def split: option.splits)

subsection \<open>Page-ready\<close>

lemma auto_focus_fields [simp]:
  "listeners (auto_focus_handler s) = listeners s"
  "timers (auto_focus_handler s) = timers s"
  "now (auto_focus_handler s) = now s"
  "props (auto_focus_handler s) = props s"
  "submitted (auto_focus_handler s) = submitted s"
  "errors (auto_focus_handler s) = errors s"
  "clicked (auto_focus_handler s) = clicked s"
  "detached (auto_focus_handler s) = detached s"
  "roots (auto_focus_handler s) = roots s"
  by (simp_all add: auto_focus_handler_def split: option.splits)

lemma page_ready_main:
  "dom_content_loaded main_js s = auto_submit_handler (auto_focus_handler s)"
  by (simp add: dom_content_loaded_def main_js_def)

lemma page_ready_focus_only: "dom_content_loaded focus_only_js s = auto_focus_handler s"
  by (simp add: dom_content_loaded_def focus_only_js_def)

lemma page_ready_main_flash:
  "dom_content_loaded main_flash_js s =
     flash_handler (auto_submit_handler (auto_focus_handler s))"
  by (simp add: dom_content_loaded_def main_flash_js_def)

lemma auto_focus_active:
  assumes "find_code_input s = Some h"
  shows "active (auto_focus_handler s) = (if el_focusable (props s h) then Some h else active s)"
  using assms by (simp add: auto_focus_handler_def focus_def)

lemma auto_submit_fields:
  assumes "find_code_input s = Some h"
  shows "listeners (auto_submit_handler s) = listeners s @ [(h, AutoSubmit)]"
    and "timers (auto_submit_handler s) = timers s"
    and "now (auto_submit_handler s) = now s"
    and "props (auto_submit_handler s) = props s"
    and "submitted (auto_submit_handler s) = submitted s"
    and "errors (auto_submit_handler s) = errors s"
    and "clicked (auto_submit_handler s) = clicked s"
    and "detached (auto_submit_handler s) = detached s"
    and "roots (auto_submit_handler s) = roots s"
    and "active (auto_submit_handler s) = active s"
  using assms by (simp_all add: auto_submit_handler_def addEventListener_def)

lemma auto_submit_frame [simp]:
  "timers (auto_submit_handler s) = timers s"
  "now (auto_submit_handler s) = now s"
  "props (auto_submit_handler s) = props s"
  "clicked (auto_submit_handler s) = clicked s"
  "detached (auto_submit_handler s) = detached s"
  "roots (auto_submit_handler s) = roots s"
  by (simp_all add: auto_submit_handler_def addEventListener_def split: option.splits)

lemma schedule_all:
  "fold (\<lambda>m. setTimeout (DismissFlash m) d) ms s =
     s\<lparr>timers := timers s @ map (\<lambda>m. (now s + d, DismissFlash m)) ms\<rparr>"
  by (induction ms arbitrary: s) (simp_all add: setTimeout_def)

lemma flash_handler_eq:
  "flash_handler s =
     s\<lparr>timers := timers s @
          map (\<lambda>m. (now s + 300000, DismissFlash m))
            (querySelectorAll (HasClass ''alert-error'') s)\<rparr>"
  by (simp add: flash_handler_def schedule_all)

lemma flash_handler_fields [simp]:
  "listeners (flash_handler s) = listeners s"
  "props (flash_handler s) = props s"
  "now (flash_handler s) = now s"
  "submitted (flash_handler s) = submitted s"
  "clicked (flash_handler s) = clicked s"
  "detached (flash_handler s) = detached s"
  "roots (flash_handler s) = roots s"
  "active (flash_handler s) = active s"
  "errors (flash_handler s) = errors s"
  by (simp_all add: flash_handler_eq)

lemma error_messages_cong:
  "roots t = roots s \<Longrightarrow> detached t = detached s \<Longrightarrow> props t = props s
   \<Longrightarrow> error_messages t = error_messages s"
  by (simp add: error_messages_def querySelectorAll_def document_elements_def)

lemma ready_fields:
  assumes "find_code_input s = Some h"
  shows "listeners (dom_content_loaded main_js s) = listeners s @ [(h, AutoSubmit)]"
    and "timers (dom_content_loaded main_js s) = timers s"
    and "now (dom_content_loaded main_js s) = now s"
    and "props (dom_content_loaded main_js s) = props s"
    and "submitted (dom_content_loaded main_js s) = submitted s"
    and "errors (dom_content_loaded main_js s) = errors s"
    and "clicked (dom_content_loaded main_js s) = clicked s"
    and "detached (dom_content_loaded main_js s) = detached s"
    and "roots (dom_content_loaded main_js s) = roots s"
  using assms by (simp_all add: page_ready_main auto_submit_fields)

lemma ready_flash_fields:
  assumes "find_code_input s = Some h"
  shows "listeners (dom_content_loaded main_flash_js s) = listeners s @ [(h, AutoSubmit)]"
    and "timers (dom_content_loaded main_flash_js s) =
           timers s @ map (\<lambda>m. (now s + 300000, DismissFlash m)) (error_messages s)"
    and "now (dom_content_loaded main_flash_js s) = now s"
    and "props (dom_content_loaded main_flash_js s) = props s"
    and "submitted (dom_content_loaded main_flash_js s) = submitted s"
    and "errors (dom_content_loaded main_flash_js s) = errors s"
    and "clicked (dom_content_loaded main_flash_js s) = clicked s"
    and "detached (dom_content_loaded main_flash_js s) = detached s"
    and "roots (dom_content_loaded main_flash_js s) = roots s"
proof -
  let ?a = "auto_submit_handler (auto_focus_handler s)"
  have f: "find_code_input (auto_focus_handler s) = Some h"
    using assms by simp
  note af = auto_submit_fields [OF f]
  have "error_messages ?a = error_messages s"
    by (rule error_messages_cong) (simp_all add: af)
  then show "timers (dom_content_loaded main_flash_js s) =
      timers s @ map (\<lambda>m. (now s + 300000, DismissFlash m)) (error_messages s)"
    by (simp add: page_ready_main_flash flash_handler_eq af
        error_messages_def [symmetric])
  show "listeners (dom_content_loaded main_flash_js s) = listeners s @ [(h, AutoSubmit)]"
    and "now (dom_content_loaded main_flash_js s) = now s"
    and "props (dom_content_loaded main_flash_js s) = props s"
    and "submitted (dom_content_loaded main_flash_js s) = submitted s"
    and "errors (dom_content_loaded main_flash_js s) = errors s"
    and "clicked (dom_content_loaded main_flash_js s) = clicked s"
    and "detached (dom_content_loaded main_flash_js s) = detached s"
    and "roots (dom_content_loaded main_flash_js s) = roots s"
    by (simp_all add: page_ready_main_flash af)
qed

lemma flash_ready:
  "timers (dom_content_loaded main_flash_js s) =
     timers s @ map (\<lambda>m. (now s + 300000, DismissFlash m)) (error_messages s)"
  "now (dom_content_loaded main_flash_js s) = now s"
  "props (dom_content_loaded main_flash_js s) = props s"
  "clicked (dom_content_loaded main_flash_js s) = clicked s"
  "detached (dom_content_loaded main_flash_js s) = detached s"
  "roots (dom_content_loaded main_flash_js s) = roots s"
proof -
  let ?a = "auto_submit_handler (auto_focus_handler s)"
  have "error_messages ?a = error_messages s"
    by (rule error_messages_cong) simp_all
  then show "timers (dom_content_loaded main_flash_js s) =
      timers s @ map (\<lambda>m. (now s + 300000, DismissFlash m)) (error_messages s)"
    by (simp add: page_ready_main_flash flash_handler_eq error_messages_def [symmetric])
  show "now (dom_content_loaded main_flash_js s) = now s"
    and "props (dom_content_loaded main_flash_js s) = props s"
    and "clicked (dom_content_loaded main_flash_js s) = clicked s"
    and "detached (dom_content_loaded main_flash_js s) = detached s"
    and "roots (dom_content_loaded main_flash_js s) = roots s"
    by (simp_all add: page_ready_main_flash)
qed

lemma ready_script_fields:
  assumes "find_code_input s = Some h" and "script = main_js \<or> script = main_flash_js"
  shows "listeners (dom_content_loaded script s) = listeners s @ [(h, AutoSubmit)]"
    and "props (dom_content_loaded script s) = props s"
    and "now (dom_content_loaded script s) = now s"
    and "submitted (dom_content_loaded script s) = submitted s"
  using assms(2) ready_fields [OF assms(1)] ready_flash_fields [OF assms(1)]
  by auto

lemma ready_active:
  assumes "find_code_input s = Some h"
  shows "active (dom_content_loaded main_js s) =
           (if el_focusable (props s h) then Some h else active s)"
    and "active (dom_content_loaded focus_only_js s) =
           (if el_focusable (props s h) then Some h else active s)"
    and "active (dom_content_loaded main_flash_js s) =
           (if el_focusable (props s h) then Some h else active s)"
proof -
  have f: "find_code_input (auto_focus_handler s) = Some h"
    using assms by simp
  show "active (dom_content_loaded main_js s) =
           (if el_focusable (props s h) then Some h else active s)"
    and "active (dom_content_loaded focus_only_js s) =
           (if el_focusable (props s h) then Some h else active s)"
    and "active (dom_content_loaded main_flash_js s) =
           (if el_focusable (props s h) then Some h else active s)"
    by (simp_all add: page_ready_main page_ready_focus_only page_ready_main_flash
        auto_submit_fields [OF f] auto_focus_active [OF assms])
qed

subsection \<open>Input events\<close>

text \<open>
  A listener leaves everything but the pending timers as it is, and so does the
  dispatch of an input event, apart from the value the user has entered.
\<close>

lemma run_listener_fields [simp]:
  "props (run_listener l h s) = props s"
  "now (run_listener l h s) = now s"
  "listeners (run_listener l h s) = listeners s"
  "submitted (run_listener l h s) = submitted s"
  "errors (run_listener l h s) = errors s"
  "clicked (run_listener l h s) = clicked s"
  "detached (run_listener l h s) = detached s"
  "roots (run_listener l h s) = roots s"
  "active (run_listener l h s) = active s"
  by (cases l; simp add: setTimeout_def)+

lemma run_listener_timers:
  "timers (run_listener l h s) =
     timers s @ (if length (el_value (props s h)) = 6 then [(now s + 500, SubmitForm h)] else [])"
  by (cases l) (simp add: setTimeout_def)

lemma dispatch_fields:
  fixes h :: handle
  defines "F \<equiv> (\<lambda>(g, l) s2. if g = h then run_listener l h s2 else s2)"
  shows "props (fold F ls s) = props s"
    and "now (fold F ls s) = now s"
    and "listeners (fold F ls s) = listeners s"
    and "submitted (fold F ls s) = submitted s"
    and "errors (fold F ls s) = errors s"
    and "clicked (fold F ls s) = clicked s"
    and "detached (fold F ls s) = detached s"
    and "roots (fold F ls s) = roots s"
    and "active (fold F ls s) = active s"
  by (induction ls arbitrary: s; simp add: F_def split_def)+

lemma dispatch_timers:
  fixes h :: handle
  defines "F \<equiv> (\<lambda>(g, l) s2. if g = h then run_listener l h s2 else s2)"
  shows "timers (fold F ls s) =
           timers s @ (if length (el_value (props s h)) = 6
                       then map (\<lambda>x. (now s + 500, SubmitForm h)) (filter (\<lambda>x. fst x = h) ls)
                       else [])"
proof (induction ls arbitrary: s)
  case Nil
  show ?case by simp
next
  case (Cons x ls)
  show ?case
  proof (cases "fst x = h")
    case True
    have "fold F (x # ls) s = fold F ls (run_listener (snd x) h s)"
      using True by (simp add: F_def split_def)
    then show ?thesis
      using True by (simp add: Cons.IH run_listener_timers)
  next
    case False
    have "fold F (x # ls) s = fold F ls s"
      using False by (simp add: F_def split_def)
    then show ?thesis
      using False by (simp add: Cons.IH)
  qed
qed

lemma input_event_fields [simp]:
  "now (input_event h v s) = now s"
  "listeners (input_event h v s) = listeners s"
  "submitted (input_event h v s) = submitted s"
  "errors (input_event h v s) = errors s"
  "clicked (input_event h v s) = clicked s"
  "detached (input_event h v s) = detached s"
  "roots (input_event h v s) = roots s"
  "active (input_event h v s) = active s"
  by (simp_all add: input_event_def Let_def dispatch_fields set_value_def)

lemma input_event_props: "props (input_event h v s) = (props s)(h := (props s h)\<lparr>el_value := v\<rparr>)"
  by (simp add: input_event_def Let_def dispatch_fields set_value_def)

lemma input_event_timers:
  "timers (input_event h v s) =
     timers s @ (if length v = 6
                 then map (\<lambda>x. (now s + 500, SubmitForm h)) (filter (\<lambda>x. fst x = h) (listeners s))
                 else [])"
  by (simp add: input_event_def Let_def dispatch_timers set_value_def)

lemma ready_input_timers:
  assumes "find_code_input s = Some h" and "listeners s = []"
  shows "timers (input_event h v (dom_content_loaded main_js s)) =
           timers s @ (if length v = 6 then [(now s + 500, SubmitForm h)] else [])"
  by (simp add: input_event_timers ready_fields [OF assms(1)] assms(2))

subsection \<open>The timer loop\<close>

declare run_until.simps [simp del]

lemma earliest_mem: "earliest xs = Some x \<Longrightarrow> x \<in> set xs"
  by (induction xs arbitrary: x) (auto split: option.splits if_splits)

lemma earliest_Nil_iff: "earliest xs = None \<longleftrightarrow> xs = []"
  by (cases xs) (auto split: option.splits)

lemma earliest_least: "earliest xs = Some x \<Longrightarrow> y \<in> set xs \<Longrightarrow> fst x \<le> fst y"
  by (induction xs arbitrary: x) (auto split: option.splits if_splits simp: earliest_Nil_iff)

lemma earliest_head:
  assumes "\<forall>y\<in>set xs. fst x \<le> fst y"
  shows "earliest (x # xs) = Some x"
proof (cases "earliest xs")
  case None
  then show ?thesis by simp
next
  case (Some y)
  then have "y \<in> set xs" by (rule earliest_mem)
  with assms have "\<not> fst y < fst x" by fastforce
  with Some show ?thesis by simp
qed

lemma run_until_idle:
  assumes "\<forall>x\<in>set (timers s). t < fst x"
  shows "run_until t s = s\<lparr>now := max (now s) t\<rparr>"
proof (cases "earliest (timers s)")
  case None
  then show ?thesis by (subst run_until.simps) simp
next
  case (Some x)
  with assms have "t < fst x" using earliest_mem by blast
  with Some show ?thesis by (subst run_until.simps) simp
qed

lemma run_until_fire:
  assumes "earliest (timers s) = Some x" and "fst x \<le> t"
  shows "run_until t s = run_until t (fire x s)"
  using assms by (subst run_until.simps) simp

lemma run_until_stop:
  assumes "earliest (timers s) = Some x" and "t < fst x"
  shows "run_until t s = s\<lparr>now := max (now s) t\<rparr>"
  using assms by (subst run_until.simps) simp

lemma run_until_empty:
  assumes "earliest (timers s) = None"
  shows "run_until t s = s\<lparr>now := max (now s) t\<rparr>"
  using assms by (subst run_until.simps) simp

text \<open>What a callback, and with it the loop, leaves as it is.\<close>

lemma run_action_fields [simp]:
  "listeners (run_action a s) = listeners s"
  "now (run_action a s) = now s"
  "roots (run_action a s) = roots s"
  "active (run_action a s) = active s"
  "el_form (props (run_action a s) g) = el_form (props s g)"
  "el_class (props (run_action a s) g) = el_class (props s g)"
  by (cases a; simp add: throw_def submit_def click_def setTimeout_def set_opacity_def
      set_transition_def remove_def split: option.splits)+

lemma fire_fields [simp]:
  "listeners (fire x s) = listeners s"
  "now (fire x s) = max (now s) (fst x)"
  "roots (fire x s) = roots s"
  "active (fire x s) = active s"
  "el_form (props (fire x s) g) = el_form (props s g)"
  "el_class (props (fire x s) g) = el_class (props s g)"
  by (simp_all add: fire_def)

lemma fire_timers:
  "\<exists>new. timers (fire x s) = remove1 x (timers s) @ new
         \<and> (\<forall>y\<in>set new. \<exists>m. y = (max (now s) (fst x) + 500, RemoveElement m))"
  by (cases "snd x")
     (auto simp: fire_def throw_def submit_def click_def setTimeout_def set_opacity_def
        set_transition_def remove_def split: option.splits)

lemma run_until_keeps:
  assumes upd: "\<And>u n. F (u\<lparr>now := n\<rparr>) = F u" and fr: "\<And>x u. F (fire x u) = F u"
  shows "F (run_until t s) = F s"
proof (induction t s rule: run_until.induct)
  case (1 t s)
  show ?case
  proof (cases "earliest (timers s)")
    case None
    then show ?thesis by (subst run_until.simps) (simp add: upd)
  next
    case (Some x)
    show ?thesis
    proof (cases "fst x \<le> t")
      case True
      with Some "1.IH" fr show ?thesis by (simp add: run_until_fire)
    next
      case False
      with Some show ?thesis by (subst run_until.simps) (simp add: upd)
    qed
  qed
qed

lemma run_until_fields [simp]:
  "listeners (run_until t s) = listeners s"
  "roots (run_until t s) = roots s"
  "active (run_until t s) = active s"
  "el_form (props (run_until t s) g) = el_form (props s g)"
  "el_class (props (run_until t s) g) = el_class (props s g)"
proof -
  show "listeners (run_until t s) = listeners s"
    by (rule run_until_keeps) simp_all
  show "roots (run_until t s) = roots s"
    by (rule run_until_keeps) simp_all
  show "active (run_until t s) = active s"
    by (rule run_until_keeps) simp_all
  show "el_form (props (run_until t s) g) = el_form (props s g)"
    by (rule run_until_keeps [where F = "\<lambda>u. el_form (props u g)"]) simp_all
  show "el_class (props (run_until t s) g) = el_class (props s g)"
    by (rule run_until_keeps [where F = "\<lambda>u. el_class (props u g)"]) simp_all
qed

lemma run_until_now [simp]: "now (run_until t s) = max (now s) t"
proof (induction t s rule: run_until.induct)
  case (1 t s)
  show ?case
  proof (cases "earliest (timers s)")
    case None
    then show ?thesis by (subst run_until.simps) simp
  next
    case (Some x)
    show ?thesis
    proof (cases "fst x \<le> t")
      case True
      with Some "1.IH" show ?thesis by (simp add: run_until_fire)
    next
      case False
      with Some show ?thesis by (subst run_until.simps) simp
    qed
  qed
qed

text \<open>Letting time pass in two steps is letting it pass in one.\<close>

lemma run_until_compose: "t' \<le> t \<Longrightarrow> run_until t (run_until t' s) = run_until t s"
proof (induction t' s rule: run_until.induct)
  case (1 t' s)
  show ?case
  proof (cases "earliest (timers s)")
    case None
    then have e: "earliest (timers (s\<lparr>now := max (now s) t'\<rparr>)) = None" by simp
    show ?thesis
      using "1.prems"
      by (simp add: run_until_empty [OF None] run_until_empty [OF e] max.assoc max_absorb2)
  next
    case (Some x)
    show ?thesis
    proof (cases "fst x \<le> t'")
      case True
      then have "fst x \<le> t" using "1.prems" by simp
      with Some True "1.IH" "1.prems" show ?thesis
        by (simp add: run_until_fire)
    next
      case False
      let ?s = "s\<lparr>now := max (now s) t'\<rparr>"
      have e: "earliest (timers ?s) = Some x" using Some by simp
      have stop: "run_until t' s = ?s"
        using run_until_stop [OF Some] False by simp
      show ?thesis
      proof (cases "fst x \<le> t")
        case True
        have "fire x ?s = fire x s"
          using False by (simp add: fire_def max.assoc max_absorb2)
        then show ?thesis
          using run_until_fire [OF e True] run_until_fire [OF Some True] stop by simp
      next
        case no: False
        show ?thesis
          using run_until_stop [OF e] run_until_stop [OF Some] no "1.prems" stop
          by (simp add: max.assoc max_absorb2)
      qed
    qed
  qed
qed

text \<open>
  The loop takes the pending submits that are due out of the list and leaves the
  others where they are.
\<close>

lemma fire_pending:
  "pending_submits h (fire x s) = remove1 x (pending_submits h s) \<or>
   pending_submits h (fire x s) = pending_submits h s \<and> snd x \<noteq> SubmitForm h"
proof -
  obtain new where n: "timers (fire x s) = remove1 x (timers s) @ new"
    and r: "\<forall>y\<in>set new. \<exists>m. y = (max (now s) (fst x) + 500, RemoveElement m)"
    using fire_timers by blast
  have "filter (\<lambda>y. snd y = SubmitForm h) new = []"
    using r by (auto simp: filter_empty_conv)
  then have p: "pending_submits h (fire x s) =
      filter (\<lambda>y. snd y = SubmitForm h) (remove1 x (timers s))"
    by (simp add: pending_submits_def n)
  show ?thesis
  proof (cases "snd x = SubmitForm h")
    case True
    then show ?thesis
      using p by (simp add: pending_submits_def filter_remove1)
  next
    case False
    have "filter (\<lambda>y. snd y = SubmitForm h) (remove1 x (timers s)) =
        remove1 x (filter (\<lambda>y. snd y = SubmitForm h) (timers s))"
      by (simp add: filter_remove1)
    also have "\<dots> = filter (\<lambda>y. snd y = SubmitForm h) (timers s)"
      using False by (simp add: remove1_idem)
    finally show ?thesis
      using p False by (simp add: pending_submits_def)
  qed
qed

lemma filter_remove1_out: "\<not> P x \<Longrightarrow> filter P (remove1 x xs) = filter P xs"
  by (induction xs) auto

lemma run_until_pending:
  "pending_submits h (run_until t s) = filter (\<lambda>x. t < fst x) (pending_submits h s)"
proof (induction t s rule: run_until.induct)
  case (1 t s)
  show ?case
  proof (cases "earliest (timers s)")
    case None
    then have "timers s = []" by (simp add: earliest_Nil_iff)
    then show ?thesis
      by (simp add: run_until_empty [OF None] pending_submits_def)
  next
    case (Some x)
    show ?thesis
    proof (cases "fst x \<le> t")
      case True
      have "filter (\<lambda>y. t < fst y) (pending_submits h (fire x s)) =
          filter (\<lambda>y. t < fst y) (pending_submits h s)"
        using fire_pending [of h x s] True by (auto simp: filter_remove1_out)
      with "1.IH" [OF Some True] show ?thesis
        by (simp add: run_until_fire [OF Some True])
    next
      case False
      have "\<forall>y\<in>set (timers s). t < fst y"
        using earliest_least [OF Some] False by fastforce
      then have "filter (\<lambda>y. t < fst y) (pending_submits h s) = pending_submits h s"
        by (auto simp: pending_submits_def intro: filter_cong)
      with False show ?thesis
        using run_until_stop [OF Some, of t] by (simp add: pending_submits_def)
    qed
  qed
qed

text \<open>The loop only adds to the forms submitted.\<close>

lemma run_action_submitted: "\<exists>ys. submitted (run_action a s) = submitted s @ ys"
  by (cases a)
     (auto simp: throw_def submit_def click_def setTimeout_def set_opacity_def
        set_transition_def remove_def split: option.splits)

lemma fire_submitted: "\<exists>ys. submitted (fire x s) = submitted s @ ys"
  using run_action_submitted [of "snd x" "s\<lparr>timers := remove1 x (timers s), now := max (now s) (fst x)\<rparr>"]
  by (simp add: fire_def)

lemma run_until_submitted: "\<exists>ys. submitted (run_until t s) = submitted s @ ys"
proof (induction t s rule: run_until.induct)
  case (1 t s)
  show ?case
  proof (cases "earliest (timers s)")
    case None
    then show ?thesis by (subst run_until.simps) simp
  next
    case (Some x)
    show ?thesis
    proof (cases "fst x \<le> t")
      case True
      from "1.IH" [OF Some True] obtain ys
        where ys: "submitted (run_until t (fire x s)) = submitted (fire x s) @ ys" ..
      from fire_submitted obtain zs where "submitted (fire x s) = submitted s @ zs" ..
      with ys have "submitted (run_until t (fire x s)) = submitted s @ (zs @ ys)" by simp
      then show ?thesis
        unfolding run_until_fire [OF Some True] ..
    next
      case False
      with Some show ?thesis by (subst run_until.simps) simp
    qed
  qed
qed

lemma fire_submit:
  assumes "el_form (props s h) = Some f"
  shows "fire (d, SubmitForm h) s =
           s\<lparr>timers := remove1 (d, SubmitForm h) (timers s), now := max (now s) d,
              submitted := submitted s @ [f]\<rparr>"
  using assms by (simp add: fire_def submit_def)

lemma fire_submit_no_form:
  assumes "el_form (props s h) = None"
  shows "fire (d, SubmitForm h) s =
           s\<lparr>timers := remove1 (d, SubmitForm h) (timers s), now := max (now s) d,
              errors := errors s @ [TypeError]\<rparr>"
  using assms by (simp add: fire_def throw_def)






text \<open>A page whose only pending timer is one deferred submit.\<close>

lemma one_shot_submit:
  assumes "timers s = [(d, SubmitForm h)]"
  shows "run_until t s =
           (if d \<le> t
            then (case el_form (props s h) of
                    Some f \<Rightarrow> s\<lparr>timers := [], now := max (max (now s) d) t,
                                 submitted := submitted s @ [f]\<rparr>
                  | None \<Rightarrow> s\<lparr>timers := [], now := max (max (now s) d) t,
                               errors := errors s @ [TypeError]\<rparr>)
            else s\<lparr>now := max (now s) t\<rparr>)"
proof (cases "d \<le> t")
  case False
  then show ?thesis
    using run_until_idle [of s t] assms by simp
next
  case True
  have e: "earliest (timers s) = Some (d, SubmitForm h)"
    using assms by simp
  have r: "run_until t s = run_until t (fire (d, SubmitForm h) s)"
    using run_until_fire [OF e] True by simp
  show ?thesis
  proof (cases "el_form (props s h)")
    case None
    show ?thesis
      unfolding r fire_submit_no_form [OF None]
      using True None assms by (simp add: run_until_idle)
  next
    case (Some f)
    show ?thesis
      unfolding r fire_submit [OF Some]
      using True Some assms by (simp add: run_until_idle)
  qed
qed

subsection \<open>Runs of events\<close>

lemma apply_event_fields [simp]:
  "listeners (apply_event e s) = listeners s"
  "roots (apply_event e s) = roots s"
  "el_form (props (apply_event e s) g) = el_form (props s g)"
  by (cases e; simp add: elapse_def input_event_props)+

lemma run_events_fields [simp]:
  "listeners (run_events es s) = listeners s"
  "roots (run_events es s) = roots s"
  "el_form (props (run_events es s) g) = el_form (props s g)"
  by (induction es arbitrary: s; simp add: run_events_def)+

lemma idle_event:
  assumes "listeners s = []" and "timers s = []"
  shows "listeners (apply_event e s) = [] \<and> timers (apply_event e s) = []
         \<and> submitted (apply_event e s) = submitted s"
proof (cases e)
  case (Input h v)
  then show ?thesis using assms by (simp add: input_event_timers)
next
  case (Elapse d)
  then show ?thesis using assms by (simp add: elapse_def run_until_idle)
qed

lemma idle_events:
  assumes "listeners s = []" and "timers s = []"
  shows "submitted (run_events es s) = submitted s"
  using assms
proof (induction es arbitrary: s)
  case Nil
  show ?case by (simp add: run_events_def)
next
  case (Cons e es)
  from idle_event [OF Cons.prems, of e] Cons.IH [of "apply_event e s"]
  show ?case by (simp add: run_events_def)
qed

text \<open>
  On a page whose one listener is the auto-submit listener of field \<open>h\<close>, the pending
  submits of \<open>h\<close> after a run of events are those that were pending before and are not
  due yet, and one for each completion of the code in the run that is less than 500 ms
  old.
\<close>

lemma events_pending:
  assumes "listeners u = [(h, AutoSubmit)]"
    and "\<forall>x\<in>set (pending_submits h u). now u < fst x"
  shows "length (pending_submits h (run_events es u)) =
           length (filter (\<lambda>x. now u + elapsed es < fst x) (pending_submits h u))
           + recent_completions h es"
  using assms
proof (induction es arbitrary: u)
  case Nil
  have "filter (\<lambda>x. now u < fst x) (pending_submits h u) = pending_submits h u"
    using Nil.prems(2) by (simp add: filter_id_conv)
  then show ?case
    by (simp add: run_events_def)
next
  case (Cons e es)
  show ?case
  proof (cases e)
    case (Input g v)
    let ?u = "input_event g v u"
    have l: "listeners ?u = [(h, AutoSubmit)]"
      using Cons.prems(1) by simp
    have p: "pending_submits h ?u =
        pending_submits h u @ (if g = h \<and> length v = 6 then [(now u + 500, SubmitForm h)] else [])"
      using Cons.prems(1) by (auto simp: pending_submits_def input_event_timers)
    have f: "\<forall>x\<in>set (pending_submits h ?u). now ?u < fst x"
      using Cons.prems(2) by (auto simp: p)
    from Cons.IH [OF l f] show ?thesis
      using Input by (simp add: run_events_def p)
  next
    case (Elapse d)
    let ?u = "elapse d u"
    have l: "listeners ?u = [(h, AutoSubmit)]"
      using Cons.prems(1) by (simp add: elapse_def)
    have p: "pending_submits h ?u = filter (\<lambda>x. now u + d < fst x) (pending_submits h u)"
      by (simp add: elapse_def run_until_pending)
    have n: "now ?u = now u + d"
      by (simp add: elapse_def)
    have f: "\<forall>x\<in>set (pending_submits h ?u). now ?u < fst x"
      by (simp add: p n)
    have "filter (\<lambda>x. now u + d + elapsed es < fst x) (pending_submits h ?u) =
        filter (\<lambda>x. now u + d + elapsed es < fst x) (pending_submits h u)"
      unfolding p by (auto intro: filter_cong)
    with Cons.IH [OF l f] show ?thesis
      using Elapse by (simp add: run_events_def n add.assoc)
  qed
qed

subsection \<open>Dismissing the flash messages\<close>

lemma forest_handles_attached:
  "set (subtree_handles dt t) \<subseteq> insert (tree_root t) (- set dt)"
  "set (forest_handles dt ts) \<subseteq> - set dt"
  by (induction dt t and dt ts rule: subtree_handles_forest_handles.induct) auto

lemma set_fold_insert: "set (fold List.insert xs ys) = set xs \<union> set ys"
  by (induction xs arbitrary: ys) auto

lemma count_map_filter:
  "count_list (List.map_filter f xs) b = length (filter (\<lambda>x. f x = Some b) xs)"
  by (induction xs) (auto simp: map_filter_simps split: option.splits)

lemma length_map_filter:
  "length (List.map_filter f xs) + length (filter (\<lambda>x. f x = None) xs) = length xs"
  by (induction xs) (auto simp: map_filter_simps split: option.splits)

lemma close_button_cong:
  assumes "roots t = roots s" and "detached t = detached s"
    and "\<And>g. el_class (props t g) = el_class (props s g)"
  shows "close_button t m = close_button s m"
proof -
  have "descendants t m = descendants s m"
    using assms(1,2) by (simp add: descendants_def split: option.splits tree.splits)
  then show ?thesis
    using assms(3) by (simp add: close_button_def querySelectorIn_def)
qed

lemma close_button_upd [simp]:
  "close_button (s\<lparr>timers := ts\<rparr>) m = close_button s m"
  "close_button (s\<lparr>now := n\<rparr>) m = close_button s m"
  "close_button (s\<lparr>clicked := cs\<rparr>) m = close_button s m"
  by (rule close_button_cong; simp)+

lemma dismiss_with_button:
  assumes "close_button s m = Some b"
  shows "run_action (DismissFlash m) s = s\<lparr>clicked := clicked s @ [b]\<rparr>"
  using assms by (simp add: close_button_def click_def)

lemma dismiss_bare:
  assumes "close_button s m = None"
  shows "run_action (DismissFlash m) s =
           s\<lparr>props := (props s)
                 (m := (props s m)\<lparr>el_transition := ''opacity 0.5s'', el_opacity := ''0''\<rparr>),
             timers := timers s @ [(now s + 500, RemoveElement m)]\<rparr>"
  using assms by (simp add: close_button_def setTimeout_def set_opacity_def set_transition_def)

lemma close_button_dismiss [simp]:
  "close_button (run_action (DismissFlash m') s) m = close_button s m"
proof (cases "close_button s m'")
  case None
  show ?thesis
    unfolding dismiss_bare [OF None] by (rule close_button_cong) simp_all
next
  case (Some b)
  show ?thesis
    unfolding dismiss_with_button [OF Some] by simp
qed

text \<open>
  Timers that are due at the same instant run one after the other, in the order in
  which they were scheduled.
\<close>

lemma dismiss_batch:
  assumes "timers u = map (\<lambda>m. (T, DismissFlash m)) ms @ rs"
    and "\<forall>x\<in>set rs. t < fst x" and "T \<le> t" and "t < T + 500" and "now u \<le> T"
  shows "run_until t u =
           (fold (\<lambda>m. run_action (DismissFlash m)) ms (u\<lparr>timers := rs, now := T\<rparr>))\<lparr>now := t\<rparr>"
  using assms
proof (induction ms arbitrary: u rs)
  case Nil
  then have "timers u = rs" by simp
  then have "u\<lparr>timers := rs, now := t\<rparr> = u\<lparr>now := t\<rparr>" by auto
  moreover have "run_until t u = u\<lparr>now := max (now u) t\<rparr>"
    using Nil by (intro run_until_idle) simp
  ultimately show ?case
    using Nil.prems(3,5) by (simp add: max_absorb2)
next
  case (Cons m ms)
  let ?x = "(T, DismissFlash m)"
  let ?rest = "map (\<lambda>m. (T, DismissFlash m)) ms @ rs"
  let ?w = "u\<lparr>timers := ?rest, now := T\<rparr>"
  let ?v = "u\<lparr>timers := rs, now := T\<rparr>"
  have "\<forall>y\<in>set ?rest. fst ?x \<le> fst y"
    using Cons.prems(2,3) by fastforce
  then have "earliest (?x # ?rest) = Some ?x"
    by (rule earliest_head)
  then have e: "earliest (timers u) = Some ?x"
    using Cons.prems(1) by simp
  define W where "W = run_action (DismissFlash m) ?w"
  have "fire ?x u = W"
    using Cons.prems(1,5) by (simp add: W_def fire_def max_absorb2 del: run_action.simps)
  then have r: "run_until t u = run_until t W"
    using run_until_fire [OF e] Cons.prems(3) by simp
  obtain rs' where tW: "timers W = map (\<lambda>m. (T, DismissFlash m)) ms @ rs'"
    and fut: "\<forall>x\<in>set rs'. t < fst x"
    and eq: "W\<lparr>timers := rs', now := T\<rparr> = run_action (DismissFlash m) ?v"
  proof (cases "close_button u m")
    case (Some b)
    have "close_button ?w m = Some b" "close_button ?v m = Some b"
      using Some by simp_all
    then have "W = ?w\<lparr>clicked := clicked u @ [b]\<rparr>"
      and "run_action (DismissFlash m) ?v = ?v\<lparr>clicked := clicked u @ [b]\<rparr>"
      unfolding W_def by (simp_all add: dismiss_with_button del: run_action.simps)
    then show ?thesis
      using Cons.prems(2) by (intro that [of rs]) simp_all
  next
    case None
    let ?new = "(T + 500, RemoveElement m)"
    let ?p = "(props u)(m := (props u m)\<lparr>el_transition := ''opacity 0.5s'', el_opacity := ''0''\<rparr>)"
    have "close_button ?w m = None" "close_button ?v m = None"
      using None by simp_all
    then have "W = ?w\<lparr>props := ?p, timers := ?rest @ [?new]\<rparr>"
      and "run_action (DismissFlash m) ?v = ?v\<lparr>props := ?p, timers := rs @ [?new]\<rparr>"
      unfolding W_def by (simp_all add: dismiss_bare del: run_action.simps)
    then show ?thesis
      using Cons.prems(2,4) by (intro that [of "rs @ [?new]"]) simp_all
  qed
  have nW: "now W = T"
    by (simp add: W_def del: run_action.simps)
  have "run_until t W =
      (fold (\<lambda>m. run_action (DismissFlash m)) ms (W\<lparr>timers := rs', now := T\<rparr>))\<lparr>now := t\<rparr>"
    using tW fut Cons.prems(3,4) nW by (intro Cons.IH) simp_all
  then show ?case
    unfolding r eq by (simp del: run_action.simps)
qed

lemma dismiss_fold:
  "clicked (fold (\<lambda>m. run_action (DismissFlash m)) ms u) =
     clicked u @ List.map_filter (close_button u) ms
   \<and> timers (fold (\<lambda>m. run_action (DismissFlash m)) ms u) =
     timers u @ map (\<lambda>m. (now u + 500, RemoveElement m))
                  (filter (\<lambda>m. close_button u m = None) ms)
   \<and> (\<forall>g. props (fold (\<lambda>m. run_action (DismissFlash m)) ms u) g =
          (if g \<in> set (filter (\<lambda>m. close_button u m = None) ms)
           then (props u g)\<lparr>el_transition := ''opacity 0.5s'', el_opacity := ''0''\<rparr>
           else props u g))
   \<and> detached (fold (\<lambda>m. run_action (DismissFlash m)) ms u) = detached u
   \<and> roots (fold (\<lambda>m. run_action (DismissFlash m)) ms u) = roots u
   \<and> now (fold (\<lambda>m. run_action (DismissFlash m)) ms u) = now u"
proof (induction ms arbitrary: u)
  case Nil
  show ?case by (simp add: map_filter_simps)
next
  case (Cons m ms)
  let ?u = "run_action (DismissFlash m) u"
  note ih = Cons.IH [of ?u]
  show ?case
  proof (cases "close_button u m")
    case (Some b)
    have u: "?u = u\<lparr>clicked := clicked u @ [b]\<rparr>"
      by (rule dismiss_with_button [OF Some])
    show ?thesis
      using ih Some unfolding fold_Cons comp_apply
      by (simp add: u map_filter_simps del: run_action.simps)
  next
    case None
    have u: "?u = u\<lparr>props := (props u)
                 (m := (props u m)\<lparr>el_transition := ''opacity 0.5s'', el_opacity := ''0''\<rparr>),
             timers := timers u @ [(now u + 500, RemoveElement m)]\<rparr>"
      by (rule dismiss_bare [OF None])
    have cb: "close_button ?u = close_button u"
      by (simp add: fun_eq_iff del: run_action.simps)
    show ?thesis
      using ih None unfolding fold_Cons comp_apply cb
      by (simp add: u map_filter_simps del: run_action.simps)
  qed
qed

lemma remove_batch:
  assumes "timers u = map (\<lambda>m. (T, RemoveElement m)) ms" and "T \<le> t" and "now u \<le> t"
  shows "run_until t u =
           u\<lparr>timers := [], now := t, detached := fold List.insert ms (detached u)\<rparr>"
  using assms
proof (induction ms arbitrary: u)
  case Nil
  then have "run_until t u = u\<lparr>now := max (now u) t\<rparr>"
    by (intro run_until_idle) simp
  moreover have "u\<lparr>timers := [], now := t\<rparr> = u\<lparr>now := t\<rparr>"
    using Nil.prems(1) by auto
  ultimately show ?case
    using Nil.prems(3) by (simp add: max_absorb2)
next
  case (Cons m ms)
  let ?x = "(T, RemoveElement m)"
  let ?rest = "map (\<lambda>m. (T, RemoveElement m)) ms"
  have "earliest (?x # ?rest) = Some ?x"
    by (rule earliest_head) auto
  then have e: "earliest (timers u) = Some ?x"
    using Cons.prems(1) by simp
  let ?W = "u\<lparr>timers := ?rest, now := max (now u) T, detached := List.insert m (detached u)\<rparr>"
  have "fire ?x u = ?W"
    using Cons.prems(1) by (simp add: fire_def remove_def)
  then have r: "run_until t u = run_until t ?W"
    using run_until_fire [OF e] Cons.prems(2) by simp
  have "run_until t ?W =
      ?W\<lparr>timers := [], now := t, detached := fold List.insert ms (detached ?W)\<rparr>"
    using Cons.prems(2,3) by (intro Cons.IH) simp_all
  then show ?case
    unfolding r by simp
qed

text \<open>
  The page after the dismissals have run, and after the removals have: \<open>V\<close> is what the
  dismissals of all error messages, one after the other, make of the ready page.
\<close>

lemma flash_run:
  assumes fresh: "timers s = []"
  defines "r \<equiv> dom_content_loaded main_flash_js s"
  defines "V \<equiv> fold (\<lambda>m. run_action (DismissFlash m)) (error_messages s)
                   (r\<lparr>timers := [], now := now s + 300000\<rparr>)"
  shows "d < 300000 \<Longrightarrow> elapse d r = r\<lparr>now := now s + d\<rparr>"
    and "300000 \<le> d \<Longrightarrow> d < 300500 \<Longrightarrow> elapse d r = V\<lparr>now := now s + d\<rparr>"
    and "300500 \<le> d \<Longrightarrow>
          elapse d r = V\<lparr>timers := [], now := now s + d,
                           detached := fold List.insert (bare_messages s) (detached s)\<rparr>"
    and "clicked V = clicked s @ close_buttons s"
    and "timers V = map (\<lambda>m. (now s + 300500, RemoveElement m)) (bare_messages s)"
    and "props V g = (if g \<in> set (bare_messages s)
                      then (props s g)\<lparr>el_transition := ''opacity 0.5s'', el_opacity := ''0''\<rparr>
                      else props s g)"
    and "detached V = detached s" and "roots V = roots s"
proof -
  let ?T = "now s + 300000"
  let ?u = "r\<lparr>timers := [], now := ?T\<rparr>"
  have tr: "timers r = map (\<lambda>m. (?T, DismissFlash m)) (error_messages s) @ []"
    and nr: "now r = now s"
    by (simp_all add: r_def flash_ready fresh)
  have cb: "close_button ?u = close_button s"
    by (rule ext, rule close_button_cong) (simp_all add: r_def flash_ready)
  note df = dismiss_fold [of "error_messages s" ?u, folded V_def, unfolded cb]
  show cV: "clicked V = clicked s @ close_buttons s"
    using df by (simp add: close_buttons_def r_def flash_ready)
  show tV: "timers V = map (\<lambda>m. (now s + 300500, RemoveElement m)) (bare_messages s)"
    using df by (simp add: bare_messages_def)
  show "props V g = (if g \<in> set (bare_messages s)
                      then (props s g)\<lparr>el_transition := ''opacity 0.5s'', el_opacity := ''0''\<rparr>
                      else props s g)"
    using df by (simp add: bare_messages_def r_def flash_ready)
  show dV: "detached V = detached s" and "roots V = roots s"
    using df by (simp_all add: r_def flash_ready)
  have nV: "now V = ?T"
    using df by simp
  show "elapse d r = r\<lparr>now := now s + d\<rparr>" if "d < 300000"
  proof -
    have "\<forall>x\<in>set (timers r). now s + d < fst x"
      using that by (auto simp: tr)
    then show ?thesis
      by (simp add: elapse_def run_until_idle nr)
  qed
  have p1: "run_until t r = V\<lparr>now := t\<rparr>" if "?T \<le> t" "t < ?T + 500" for t
    unfolding V_def using tr _ that
    by (rule dismiss_batch) (simp_all add: nr)
  then show "elapse d r = V\<lparr>now := now s + d\<rparr>" if "300000 \<le> d" "d < 300500"
    using that by (simp add: elapse_def nr)
  show "elapse d r = V\<lparr>timers := [], now := now s + d,
                           detached := fold List.insert (bare_messages s) (detached s)\<rparr>"
    if "300500 \<le> d"
  proof -
    let ?t = "now s + d"
    have "run_until ?t r = run_until ?t (run_until ?T r)"
      using that by (simp add: run_until_compose)
    also have "run_until ?T r = V\<lparr>now := ?T\<rparr>"
      by (rule p1) simp_all
    also have "run_until ?t (V\<lparr>now := ?T\<rparr>) =
        (V\<lparr>now := ?T\<rparr>)\<lparr>timers := [], now := ?t,
           detached := fold List.insert (bare_messages s) (detached (V\<lparr>now := ?T\<rparr>))\<rparr>"
      using that by (intro remove_batch [where T = "now s + 300500"]) (simp_all add: tV)
    finally show ?thesis
      by (simp add: elapse_def nr dV)
  qed
qed

subsection \<open>The example pages\<close>

lemma verify_elements: "document_elements verify_page = [10, 11, 12]"
  by (simp add: verify_page_def load_def document_elements_def)

lemma verify_fields:
  "props verify_page = verify_props" "listeners verify_page = []" "timers verify_page = []"
  "now verify_page = 0" "submitted verify_page = []" "errors verify_page = []"
  "active verify_page = None"
  by (simp_all add: verify_page_def load_def)

lemma verify_find: "find_code_input verify_page = Some 12"
  by (simp add: find_code_input_def getElementById_def verify_elements verify_fields
      verify_props_def blank_def text_input_def)

lemma backup_elements: "document_elements backup_page = [50, 51, 52]"
  by (simp add: backup_page_def load_def document_elements_def)

lemma backup_fields: "props backup_page = backup_props"
  by (simp add: backup_page_def load_def)

lemma short_elements: "document_elements short_page = [60, 61]"
  by (simp add: short_page_def load_def document_elements_def)

lemma short_fields: "props short_page = short_props"
  by (simp add: short_page_def load_def)

lemma plain_elements: "document_elements plain_page = [30, 31]"
  by (simp add: plain_page_def load_def document_elements_def)

lemma plain_no_match:
  "\<forall>h\<in>set (document_elements plain_page).
     el_id (props plain_page h) \<noteq> Some ''code''
     \<and> \<not> matches (InputPattern ''[0-9]{6}'') (props plain_page h)
     \<and> \<not> matches (InputMaxlength ''6'') (props plain_page h)"
  by (simp add: plain_elements) (simp add: plain_page_def load_def plain_props_def blank_def text_input_def)

lemma formless_elements: "document_elements formless_page = [20, 21]"
  by (simp add: formless_page_def load_def document_elements_def)

lemma formless_fields:
  "props formless_page = formless_props" "listeners formless_page = []"
  "timers formless_page = []" "now formless_page = 0" "submitted formless_page = []"
  "errors formless_page = []"
  by (simp_all add: formless_page_def load_def)

lemma formless_find: "find_code_input formless_page = Some 21"
  by (simp add: find_code_input_def getElementById_def formless_elements formless_fields
      formless_props_def blank_def text_input_def)

lemma disabled_elements: "document_elements disabled_page = [80, 81]"
  by (simp add: disabled_page_def load_def document_elements_def)

lemma disabled_fields:
  "props disabled_page = disabled_props" "active disabled_page = None"
  by (simp_all add: disabled_page_def load_def)

lemma disabled_find: "find_code_input disabled_page = Some 81"
  by (simp add: find_code_input_def getElementById_def disabled_elements disabled_fields
      disabled_props_def blank_def text_input_def)







lemma code_lengths:
  "length (utf16 ''123456'') = 6" "length (utf16 ''12345'') \<noteq> 6"
  "length (utf16 ''1234567'') \<noteq> 6"
  by (simp_all add: utf16_def)

lemma not_digits: "\<not> list_all is_digit (utf16 ''12ab-6'')"
  by (simp add: utf16_def is_digit_def)



lemma flash_elements: "document_elements flash_page = [40, 41, 42, 43]"
  by (simp add: flash_page_def load_def document_elements_def)

lemma flash_fields:
  "props flash_page = flash_props" "timers flash_page = []" "now flash_page = 0"
  "clicked flash_page = []" "detached flash_page = []"
  "roots flash_page = [Tree 40 [Tree 41 [Tree 42 []], Tree 43 []]]"
  by (simp_all add: flash_page_def load_def)

lemma flash_errors: "querySelectorAll (HasClass ''alert-error'') flash_page = [41, 43]"
  by (simp add: querySelectorAll_def flash_elements flash_fields flash_props_def blank_def text_input_def)

lemma flash_close:
  "querySelectorIn 41 (HasClass ''btn-close'') flash_page = Some 42"
  "querySelectorIn 43 (HasClass ''btn-close'') flash_page = None"
  by (simp_all add: querySelectorIn_def descendants_def flash_fields flash_props_def
      blank_def text_input_def)

lemma flash_messages:
  "error_messages flash_page = [41, 43]"
  "close_buttons flash_page = [42]"
  "bare_messages flash_page = [43]"
  "close_button flash_page 41 = Some 42"
  "close_button flash_page 43 = None"
  by (simp_all add: error_messages_def close_buttons_def bare_messages_def close_button_def
      flash_errors flash_close map_filter_simps)

section \<open>Properties of the scripts\<close>

subsection \<open>Lookup and focus\<close>

text \<open>
  Claim C5. The lookup is ordered and the first match wins: it is the first of the
  three rules (identifier \<^verbatim>\<open>code\<close>; input with pattern \<^verbatim>\<open>[0-9]{6}\<close>; input with
  maxlength \<^verbatim>\<open>6\<close>) that finds an element. If an element with identifier \<^verbatim>\<open>code\<close> is
  in the document, the first such in tree order is selected, whatever else matches;
  otherwise the first input with the pattern; otherwise the first input with the
  maxlength.
\<close>

theorem lookup_order:
  "find_code_input s = first_match lookup_rules s
   \<and> ((\<exists>h\<in>set (document_elements s). el_id (props s h) = Some ''code'') \<longrightarrow>
        find_code_input s =
          find (\<lambda>h. el_id (props s h) = Some ''code'') (document_elements s)
        \<and> (\<exists>g. find_code_input s = Some g \<and> el_id (props s g) = Some ''code''))
   \<and> (\<not> (\<exists>h\<in>set (document_elements s). el_id (props s h) = Some ''code'') \<longrightarrow>
        (\<exists>h\<in>set (document_elements s). matches (InputPattern ''[0-9]{6}'') (props s h)) \<longrightarrow>
        find_code_input s =
          find (\<lambda>h. matches (InputPattern ''[0-9]{6}'') (props s h)) (document_elements s))
   \<and> (\<not> (\<exists>h\<in>set (document_elements s). el_id (props s h) = Some ''code'') \<longrightarrow>
        \<not> (\<exists>h\<in>set (document_elements s). matches (InputPattern ''[0-9]{6}'') (props s h)) \<longrightarrow>
        find_code_input s =
          find (\<lambda>h. matches (InputMaxlength ''6'') (props s h)) (document_elements s))"
proof -
  let ?els = "document_elements s"
  let ?byId = "\<lambda>h. el_id (props s h) = Some ''code''"
  let ?byPat = "\<lambda>h. matches (InputPattern ''[0-9]{6}'') (props s h)"
  have a: "find_code_input s = first_match lookup_rules s"
    by (rule find_code_input_first_match)
  have b: "find_code_input s = find ?byId ?els
           \<and> (\<exists>g. find_code_input s = Some g \<and> el_id (props s g) = Some ''code'')"
    if "\<exists>h\<in>set ?els. ?byId h"
  proof -
    from that obtain g where g: "find ?byId ?els = Some g"
      using find_exists [of _ ?els ?byId] by blast
    then have "el_id (props s g) = Some ''code''"
      using find_Some_holds [of ?byId ?els g] by simp
    with g show ?thesis
      by (simp add: find_code_input_def getElementById_def)
  qed
  have c: "find_code_input s = find ?byPat ?els"
    if "\<not> (\<exists>h\<in>set ?els. ?byId h)" "\<exists>h\<in>set ?els. ?byPat h"
  proof -
    from that(1) have "find ?byId ?els = None"
      by (simp add: find_None_iff)
    moreover from that(2) obtain g where "find ?byPat ?els = Some g"
      using find_exists [of _ ?els ?byPat] by blast
    ultimately show ?thesis
      by (simp add: find_code_input_def getElementById_def querySelector_def)
  qed
  have d: "find_code_input s = find (\<lambda>h. matches (InputMaxlength ''6'') (props s h)) ?els"
    if "\<not> (\<exists>h\<in>set ?els. ?byId h)" "\<not> (\<exists>h\<in>set ?els. ?byPat h)"
  proof -
    from that have "find ?byId ?els = None" "find ?byPat ?els = None"
      by (simp_all add: find_None_iff)
    then show ?thesis
      by (simp add: find_code_input_def getElementById_def querySelector_def)
  qed
  from a b c d show ?thesis by blast
qed

theorem lookup_order_witness:
  "(\<exists>h\<in>set (document_elements verify_page). el_id (props verify_page h) = Some ''code'')
   \<and> (\<exists>h\<in>set (document_elements verify_page).
         matches (InputPattern ''[0-9]{6}'') (props verify_page h))
   \<and> find_code_input verify_page = Some 12
   \<and> \<not> (\<exists>h\<in>set (document_elements backup_page). el_id (props backup_page h) = Some ''code'')
   \<and> (\<exists>h\<in>set (document_elements backup_page).
         matches (InputPattern ''[0-9]{6}'') (props backup_page h))
   \<and> find_code_input backup_page = Some 52
   \<and> \<not> (\<exists>h\<in>set (document_elements short_page). el_id (props short_page h) = Some ''code'')
   \<and> \<not> (\<exists>h\<in>set (document_elements short_page).
         matches (InputPattern ''[0-9]{6}'') (props short_page h))
   \<and> find_code_input short_page = Some 61"
  using lookup_order [of verify_page, THEN conjunct2]
    lookup_order [of backup_page, THEN conjunct2]
    lookup_order [of short_page, THEN conjunct2]
  by (simp add: verify_elements verify_fields verify_props_def backup_elements
      backup_fields backup_props_def short_elements short_fields short_props_def blank_def text_input_def)

text \<open>
  Claim C6. On a page where no element matches any of the three rules, page-ready of
  the code-entry scripts leaves the page exactly as it was: nothing focused, no
  listener attached, no timer scheduled, no error raised. (In the variant with the
  flash messages, what remains is the flash handler alone.)
\<close>

theorem no_match_no_action:
  assumes "\<forall>h\<in>set (document_elements s).
             el_id (props s h) \<noteq> Some ''code''
             \<and> \<not> matches (InputPattern ''[0-9]{6}'') (props s h)
             \<and> \<not> matches (InputMaxlength ''6'') (props s h)"
  shows "dom_content_loaded main_js s = s
         \<and> dom_content_loaded focus_only_js s = s
         \<and> dom_content_loaded main_flash_js s = flash_handler s"
  using find_code_input_none [OF assms]
  by (simp add: page_ready_main page_ready_focus_only page_ready_main_flash
      auto_focus_handler_def auto_submit_handler_def)

theorem no_match_no_action_witness:
  "document_elements plain_page = [30, 31]
   \<and> el_id (props plain_page 30) \<noteq> Some ''code''
   \<and> el_id (props plain_page 31) \<noteq> Some ''code''
   \<and> \<not> matches (InputPattern ''[0-9]{6}'') (props plain_page 30)
   \<and> \<not> matches (InputPattern ''[0-9]{6}'') (props plain_page 31)
   \<and> \<not> matches (InputMaxlength ''6'') (props plain_page 30)
   \<and> \<not> matches (InputMaxlength ''6'') (props plain_page 31)
   \<and> dom_content_loaded main_js plain_page = plain_page
   \<and> dom_content_loaded focus_only_js plain_page = plain_page
   \<and> active (dom_content_loaded main_js plain_page) = None
   \<and> listeners (dom_content_loaded main_js plain_page) = []
   \<and> timers (dom_content_loaded main_js plain_page) = []
   \<and> errors (dom_content_loaded main_js plain_page) = []"
proof -
  have eq: "dom_content_loaded main_js plain_page = plain_page"
    "dom_content_loaded focus_only_js plain_page = plain_page"
    using no_match_no_action [OF plain_no_match] by simp_all
  show ?thesis
    unfolding eq using plain_no_match
    by (simp add: plain_elements) (simp add: plain_page_def load_def)
qed

text \<open>
  Claim C8, as stated: on every page with an input whose identifier is \<^verbatim>\<open>code\<close>, that
  input is focused on page-ready. It fails on the page whose code input is disabled: the
  lookup finds the input and the script calls \<^verbatim>\<open>focus()\<close> on it, which does nothing on an
  element that is not focusable.
\<close>

theorem disabled_input_not_focused:
  "el_tag (props disabled_page 81) = ''input''
   \<and> el_id (props disabled_page 81) = Some ''code''
   \<and> find_code_input disabled_page = Some 81
   \<and> active (dom_content_loaded main_js disabled_page) \<noteq> Some 81"
  by (simp add: ready_active [OF disabled_find] disabled_find disabled_fields
      disabled_props_def blank_def)

text \<open>
  Claim C8, amended. On page-ready the script calls \<^verbatim>\<open>focus()\<close> on the element the lookup
  finds, in every variant: if that element is focusable it becomes the active element,
  and if it is not the active element stays what it was. In particular, if \<open>h\<close> is the
  element of the document whose identifier is \<^verbatim>\<open>code\<close> and \<open>h\<close> is focusable, then \<open>h\<close> is
  focused. Running the focus handler again changes nothing more.
\<close>

theorem focus_on_page_ready:
  "(find_code_input s = Some h \<longrightarrow> el_focusable (props s h) \<longrightarrow>
      active (dom_content_loaded main_js s) = Some h
      \<and> active (dom_content_loaded focus_only_js s) = Some h
      \<and> active (dom_content_loaded main_flash_js s) = Some h)
   \<and> (find_code_input s = Some h \<longrightarrow> \<not> el_focusable (props s h) \<longrightarrow>
      active (dom_content_loaded main_js s) = active s
      \<and> active (dom_content_loaded focus_only_js s) = active s
      \<and> active (dom_content_loaded main_flash_js s) = active s)
   \<and> (h \<in> set (document_elements s) \<longrightarrow> el_id (props s h) = Some ''code'' \<longrightarrow>
      (\<forall>g\<in>set (document_elements s). el_id (props s g) = Some ''code'' \<longrightarrow> g = h) \<longrightarrow>
      el_focusable (props s h) \<longrightarrow>
      active (auto_focus_handler s) = Some h)
   \<and> auto_focus_handler (auto_focus_handler s) = auto_focus_handler s"
proof -
  have a: "active (dom_content_loaded main_js s) = Some h
      \<and> active (dom_content_loaded focus_only_js s) = Some h
      \<and> active (dom_content_loaded main_flash_js s) = Some h"
    if "find_code_input s = Some h" "el_focusable (props s h)"
    using that by (simp add: ready_active)
  have a': "active (dom_content_loaded main_js s) = active s
      \<and> active (dom_content_loaded focus_only_js s) = active s
      \<and> active (dom_content_loaded main_flash_js s) = active s"
    if "find_code_input s = Some h" "\<not> el_focusable (props s h)"
    using that by (simp add: ready_active)
  have b: "active (auto_focus_handler s) = Some h"
    if "h \<in> set (document_elements s)" "el_id (props s h) = Some ''code''"
      "\<forall>g\<in>set (document_elements s). el_id (props s g) = Some ''code'' \<longrightarrow> g = h"
      "el_focusable (props s h)"
    using find_code_input_by_id [OF that(1,2,3)] that(4)
    by (simp add: auto_focus_active)
  have c: "auto_focus_handler (auto_focus_handler s) = auto_focus_handler s"
    by (cases "find_code_input s") (simp_all add: auto_focus_handler_def focus_def)
  show ?thesis
  proof (intro conjI impI)
    assume "find_code_input s = Some h" and "el_focusable (props s h)"
    then show "active (dom_content_loaded main_js s) = Some h"
      and "active (dom_content_loaded focus_only_js s) = Some h"
      and "active (dom_content_loaded main_flash_js s) = Some h"
      using a by blast+
  next
    assume "find_code_input s = Some h" and "\<not> el_focusable (props s h)"
    then show "active (dom_content_loaded main_js s) = active s"
      and "active (dom_content_loaded focus_only_js s) = active s"
      and "active (dom_content_loaded main_flash_js s) = active s"
      using a' by blast+
  next
    assume "h \<in> set (document_elements s)" and "el_id (props s h) = Some ''code''"
      and "\<forall>g\<in>set (document_elements s). el_id (props s g) = Some ''code'' \<longrightarrow> g = h"
      and "el_focusable (props s h)"
    then show "active (auto_focus_handler s) = Some h"
      by (rule b)
  next
    show "auto_focus_handler (auto_focus_handler s) = auto_focus_handler s"
      by (rule c)
  qed
qed

theorem focus_on_page_ready_witness:
  "find_code_input verify_page = Some 12
   \<and> document_elements verify_page = [10, 11, 12]
   \<and> el_id (props verify_page 10) \<noteq> Some ''code''
   \<and> el_id (props verify_page 11) \<noteq> Some ''code''
   \<and> el_id (props verify_page 12) = Some ''code''
   \<and> el_focusable (props verify_page 12)
   \<and> active (dom_content_loaded main_js verify_page) = Some 12
   \<and> active (dom_content_loaded focus_only_js verify_page) = Some 12
   \<and> active (dom_content_loaded main_flash_js verify_page) = Some 12
   \<and> active (auto_focus_handler verify_page) = Some 12
   \<and> find_code_input disabled_page = Some 81
   \<and> \<not> el_focusable (props disabled_page 81)
   \<and> active (dom_content_loaded main_js disabled_page) = None"
  using focus_on_page_ready [of verify_page 12] focus_on_page_ready [of disabled_page 81]
  by (simp add: verify_find verify_elements verify_fields verify_props_def disabled_find
      disabled_fields disabled_props_def blank_def text_input_def)

subsection \<open>Auto-submit\<close>



text \<open>
  Claim C9. Whether an input event schedules the deferred submit depends on the length
  of the value only: two values of the same length schedule the same timers, and every
  value of length 6 schedules the submit, digits or not.
\<close>

theorem trigger_depends_on_length_only:
  "(length v = length w \<longrightarrow> timers (input_event h v s) = timers (input_event h w s))
   \<and> (find_code_input s = Some h \<longrightarrow> listeners s = [] \<longrightarrow> length v = 6 \<longrightarrow>
        timers (input_event h v (dom_content_loaded main_js s)) =
          timers s @ [(now s + 500, SubmitForm h)])"
proof -
  have "timers (input_event h v s) = timers (input_event h w s)" if "length v = length w"
    using that by (simp add: input_event_timers)
  moreover have "timers (input_event h v (dom_content_loaded main_js s)) =
      timers s @ [(now s + 500, SubmitForm h)]"
    if "find_code_input s = Some h" "listeners s = []" "length v = 6"
    using ready_input_timers [OF that(1,2), of v] that(3) by simp
  ultimately show ?thesis by blast
qed

theorem trigger_depends_on_length_only_witness:
  "length (utf16 ''12ab-6'') = length (utf16 ''123456'')
   \<and> \<not> list_all is_digit (utf16 ''12ab-6'')
   \<and> find_code_input verify_page = Some 12 \<and> listeners verify_page = []
   \<and> length (utf16 ''12ab-6'') = 6
   \<and> timers (input_event 12 (utf16 ''12ab-6'') (dom_content_loaded main_js verify_page)) =
       [(500, SubmitForm 12)]
   \<and> timers (input_event 12 (utf16 ''12ab-6'') (dom_content_loaded main_js verify_page)) =
       timers (input_event 12 (utf16 ''123456'') (dom_content_loaded main_js verify_page))"
proof -
  have l: "length (utf16 ''12ab-6'') = 6"
    by (simp add: utf16_def)
  show ?thesis
    using trigger_depends_on_length_only
      [of "utf16 ''12ab-6''" "utf16 ''123456''" 12 "dom_content_loaded main_js verify_page"]
      trigger_depends_on_length_only [of "utf16 ''12ab-6''" _ 12 verify_page]
    by (simp add: l code_lengths not_digits verify_find verify_fields)
qed

text \<open>
  Claim C2 (an input with no owning form when the timer fires). The callback is
  \<^verbatim>\<open>e.target.form.submit()\<close> with no guard on \<^verbatim>\<open>form\<close>, unlike the lookups of the code
  input and of the close button. On the page whose code input (21) stands outside any
  form, entering \<^verbatim>\<open>123456\<close> and letting 500 ms pass ends in an uncaught TypeError, and
  nothing is submitted.
\<close>

theorem missing_form_throws:
  "errors (elapse 500 (input_event 21 (utf16 ''123456'')
     (dom_content_loaded main_js formless_page))) = [TypeError]
   \<and> submitted (elapse 500 (input_event 21 (utf16 ''123456'')
     (dom_content_loaded main_js formless_page))) = []"
proof -
  let ?e = "input_event 21 (utf16 ''123456'') (dom_content_loaded main_js formless_page)"
  have t: "timers ?e = [(500, SubmitForm 21)]"
    by (simp add: ready_input_timers [OF formless_find] formless_fields code_lengths)
  have f: "el_form (props ?e 21) = None"
    by (simp add: input_event_props ready_fields [OF formless_find] formless_fields
        formless_props_def blank_def text_input_def)
  show ?thesis
    by (simp add: elapse_def one_shot_submit [OF t] f ready_fields [OF formless_find]
        formless_fields)
qed

text \<open>
  Claim C3, as stated: at most one pending-submit timer per field at any time. It fails:
  the user completes the code and, 100 ms later, replaces its last digit. Both input
  events find a value of length 6, and two timers are pending.
\<close>

theorem two_pending_submits:
  "\<not> length (pending_submits 12
        (run_events [Input 12 (utf16 ''123456''), Elapse 100, Input 12 (utf16 ''123457'')]
           (dom_content_loaded main_js verify_page))) \<le> 1"
proof -
  let ?r = "dom_content_loaded main_js verify_page"
  let ?a = "input_event 12 (utf16 ''123456'') ?r"
  have t: "timers ?a = [(500, SubmitForm 12)]"
    by (simp add: ready_input_timers [OF verify_find] verify_fields code_lengths)
  have n: "now ?a = 0"
    by (simp add: ready_fields [OF verify_find] verify_fields)
  have e: "elapse 100 ?a = ?a\<lparr>now := 100\<rparr>"
    by (simp add: elapse_def run_until_idle t ready_fields [OF verify_find] verify_fields)
  have six: "length (utf16 ''123457'') = 6"
    by (simp add: utf16_def)
  have "timers (input_event 12 (utf16 ''123457'') (elapse 100 ?a)) =
      [(500, SubmitForm 12), (600, SubmitForm 12)]"
    by (simp add: e input_event_timers six code_lengths ready_fields [OF verify_find]
        verify_fields)
  then show ?thesis
    by (simp add: run_events_def pending_submits_def)
qed

text \<open>
  Claim C3, amended. In every state that a page made ready by a script with
  auto-submit can reach (by edits of any field and by time passing), the number of
  pending-submit timers of the code input is the number of input events on it that
  found a value of length exactly 6 and are less than 500 ms old; and an input event
  in such a state adds one pending-submit timer of the field if it is on the field and
  finds a value of length 6, adds none otherwise, and removes none.
\<close>

theorem pending_submits_count:
  fixes es :: "event list"
  assumes found: "find_code_input s = Some h" and fresh: "listeners s = []" "timers s = []"
    and script: "script = main_js \<or> script = main_flash_js"
  defines "u \<equiv> run_events es (dom_content_loaded script s)"
  shows "length (pending_submits h u) = recent_completions h es
       \<and> pending_submits h (input_event g v u) =
           pending_submits h u @
             (if g = h \<and> length v = 6 then [(now u + 500, SubmitForm h)] else [])"
proof -
  let ?r = "dom_content_loaded script s"
  have l: "listeners ?r = [(h, AutoSubmit)]"
    by (simp add: ready_script_fields [OF found script] fresh)
  have p: "pending_submits h ?r = []"
    using script fresh(2)
    by (auto simp: pending_submits_def ready_fields [OF found] ready_flash_fields [OF found]
        filter_empty_conv)
  have "length (pending_submits h u) = recent_completions h es"
    using events_pending [OF l, of es] by (simp add: p u_def)
  moreover have "listeners u = [(h, AutoSubmit)]"
    by (simp add: u_def l)
  then have "pending_submits h (input_event g v u) =
      pending_submits h u @
        (if g = h \<and> length v = 6 then [(now u + 500, SubmitForm h)] else [])"
    by (auto simp: pending_submits_def input_event_timers)
  ultimately show ?thesis by simp
qed

theorem pending_submits_count_witness:
  "find_code_input verify_page = Some 12 \<and> listeners verify_page = []
   \<and> timers verify_page = []
   \<and> recent_completions 12
        [Input 12 (utf16 ''123456''), Elapse 100, Input 12 (utf16 ''12345''),
         Elapse 100, Input 12 (utf16 ''123457'')] = 2
   \<and> length (pending_submits 12
        (run_events [Input 12 (utf16 ''123456''), Elapse 100, Input 12 (utf16 ''12345''),
                     Elapse 100, Input 12 (utf16 ''123457'')]
           (dom_content_loaded main_js verify_page))) = 2
   \<and> recent_completions 12
        [Input 12 (utf16 ''123456''), Elapse 100, Input 12 (utf16 ''123457''),
         Elapse 450] = 1
   \<and> length (pending_submits 12
        (run_events [Input 12 (utf16 ''123456''), Elapse 100, Input 12 (utf16 ''123457''),
                     Elapse 450]
           (dom_content_loaded main_js verify_page))) = 1
   \<and> length (pending_submits 12 (input_event 12 (utf16 ''123458'')
        (run_events [Input 12 (utf16 ''123456''), Elapse 100, Input 12 (utf16 ''123457''),
                     Elapse 450]
           (dom_content_loaded main_js verify_page)))) = 2"
proof -
  have six: "length (utf16 ''123458'') = 6" "length (utf16 ''123457'') = 6"
    by (simp_all add: utf16_def)
  note a = pending_submits_count [OF verify_find verify_fields(2,3), of main_js]
  have "length (pending_submits 12 (input_event 12 (utf16 ''123458'')
        (run_events [Input 12 (utf16 ''123456''), Elapse 100, Input 12 (utf16 ''123457''),
                     Elapse 450]
           (dom_content_loaded main_js verify_page)))) = 2"
    using a [of "[Input 12 (utf16 ''123456''), Elapse 100, Input 12 (utf16 ''123457''),
         Elapse 450]" 12 "utf16 ''123458''"]
    by (simp add: six code_lengths)
  then show ?thesis
    using a [of "[Input 12 (utf16 ''123456''), Elapse 100, Input 12 (utf16 ''12345''),
         Elapse 100, Input 12 (utf16 ''123457'')]" 12 "utf16 ''123458''"]
      a [of "[Input 12 (utf16 ''123456''), Elapse 100, Input 12 (utf16 ''123457''),
         Elapse 450]" 12 "utf16 ''123458''"]
    by (simp add: six code_lengths verify_find verify_fields)
qed

text \<open>
  Claim C4. An input event never cancels a pending timer: the timers pending before it
  are all pending after it, in the same order. In particular, if a 6-character value
  schedules the deferred submit and the user edits the field again \<open>d < 500\<close> ms later,
  to any value \<open>w\<close>, the submit scheduled first still fires once the 500 ms are over.
\<close>

theorem pending_submit_survives_edit:
  "(\<exists>new. timers (input_event g w s) = timers s @ new)
   \<and> (find_code_input s = Some h \<longrightarrow> listeners s = [] \<longrightarrow> timers s = [] \<longrightarrow>
        length v = 6 \<longrightarrow> el_form (props s h) = Some f \<longrightarrow> d < 500 \<longrightarrow>
        (\<exists>ys. submitted
           (run_events [Input h v, Elapse d, Input h w, Elapse (500 - d)]
              (dom_content_loaded main_js s)) = submitted s @ f # ys))"
proof -
  have a: "\<exists>new. timers (input_event g w s) = timers s @ new"
    by (simp add: input_event_timers)
  have b: "\<exists>ys. submitted
           (run_events [Input h v, Elapse d, Input h w, Elapse (500 - d)]
              (dom_content_loaded main_js s)) = submitted s @ f # ys"
    if found: "find_code_input s = Some h" and fresh: "listeners s = []" "timers s = []"
      and v: "length v = 6" and f: "el_form (props s h) = Some f" and d: "d < 500"
  proof -
    let ?x = "(now s + 500, SubmitForm h)"
    define s1 where "s1 = dom_content_loaded main_js s"
    define s2 where "s2 = input_event h v s1"
    define s3 where "s3 = elapse d s2"
    define s4 where "s4 = input_event h w s3"
    note rf = ready_fields [OF found, folded s1_def]
    have t2: "timers s2 = [?x]"
      by (simp add: s2_def input_event_timers rf fresh v)
    have n2: "now s2 = now s" and l2: "listeners s2 = [(h, AutoSubmit)]"
      and sb2: "submitted s2 = submitted s"
      and p2: "el_form (props s2 h) = Some f"
      by (simp_all add: s2_def input_event_props rf fresh f)
    have s3: "s3 = s2\<lparr>now := now s + d\<rparr>"
      by (simp add: s3_def elapse_def run_until_idle t2 n2 d)
    have t4: "timers s4 = ?x # (if length w = 6 then [(now s + d + 500, SubmitForm h)] else [])"
      by (simp add: s4_def input_event_timers s3 t2 l2)
    have n4: "now s4 = now s + d" and sb4: "submitted s4 = submitted s"
      and p4: "el_form (props s4 h) = Some f"
      by (simp_all add: s4_def input_event_props s3 sb2 p2)
    have e4: "earliest (timers s4) = Some ?x"
      by (simp add: t4)
    have "run_until (now s + 500) s4 = run_until (now s + 500) (fire ?x s4)"
      by (rule run_until_fire [OF e4]) simp
    moreover have "submitted (fire ?x s4) = submitted s @ [f]"
      by (simp add: fire_submit [OF p4] sb4)
    moreover obtain ys where
      "submitted (run_until (now s + 500) (fire ?x s4)) = submitted (fire ?x s4) @ ys"
      using run_until_submitted by blast
    ultimately have "submitted (run_until (now s + 500) s4) = submitted s @ f # ys"
      by simp
    moreover have "elapse (500 - d) s4 = run_until (now s + 500) s4"
      using d by (simp add: elapse_def n4)
    ultimately have "submitted (elapse (500 - d) s4) = submitted s @ f # ys"
      by simp
    then show ?thesis
      by (auto simp: run_events_def s4_def s3_def s2_def s1_def)
  qed
  show ?thesis
    using a b by blast
qed

theorem pending_submit_survives_edit_witness:
  "find_code_input verify_page = Some 12 \<and> listeners verify_page = []
   \<and> timers verify_page = [] \<and> length (utf16 ''123456'') = 6
   \<and> el_form (props verify_page 12) = Some 10 \<and> (200::nat) < 500
   \<and> (\<exists>ys. submitted
         (run_events [Input 12 (utf16 ''123456''), Elapse 200, Input 12 (utf16 ''12345''),
                      Elapse (500 - 200)]
            (dom_content_loaded main_js verify_page)) = 10 # ys)"
  using pending_submit_survives_edit
    [of 12 "utf16 ''12345''" verify_page 12 "utf16 ''123456''" 10 200]
  by (simp add: verify_find verify_fields verify_props_def blank_def text_input_def code_lengths)

subsection \<open>The variants without auto-submit\<close>

text \<open>
  Claim C10. The variants with auto-submit disabled attach the focus behaviour only:
  page-ready adds no listener and no timer, and whatever the user types and however
  long time passes afterwards, no form is submitted by the script.
\<close>

theorem focus_only_never_submits:
  assumes "listeners s = []" and "timers s = []"
  shows "listeners (dom_content_loaded focus_only_js s) = []
         \<and> timers (dom_content_loaded focus_only_js s) = []
         \<and> submitted (run_events es (dom_content_loaded focus_only_js s)) = submitted s"
proof -
  have l: "listeners (dom_content_loaded focus_only_js s) = []"
    and t: "timers (dom_content_loaded focus_only_js s) = []"
    and sb: "submitted (dom_content_loaded focus_only_js s) = submitted s"
    using assms
    by (simp_all add: page_ready_focus_only auto_focus_handler_def focus_def
        split: option.splits)
  from idle_events [OF l t, of es] l t sb show ?thesis by simp
qed

theorem focus_only_never_submits_witness:
  "listeners verify_page = [] \<and> timers verify_page = []
   \<and> find_code_input verify_page = Some 12
   \<and> length (utf16 ''123456'') = 6
   \<and> listeners (dom_content_loaded focus_only_js verify_page) = []
   \<and> submitted (run_events [Input 12 (utf16 ''123456''), Elapse 500,
                              Input 12 (utf16 ''12345''), Elapse 1000]
        (dom_content_loaded focus_only_js verify_page)) = []"
  using focus_only_never_submits [of verify_page
      "[Input 12 (utf16 ''123456''), Elapse 500, Input 12 (utf16 ''12345''), Elapse 1000]"]
  by (simp add: verify_find verify_fields code_lengths)

subsection \<open>Flash messages\<close>

text \<open>
  Claim C7. Let the script with the flash handler make a page ready on which no timer
  is pending. Before 300000 ms have passed, nothing happens but the passing of time.
  From then on, for every element of the document that had the class \<^verbatim>\<open>alert-error\<close> at
  page-ready: if it holds an element with the class \<^verbatim>\<open>btn-close\<close>, the first such has been
  clicked, once for each message it is the close button of, and never again; if it
  holds none, its transition is \<^verbatim>\<open>opacity 0.5s\<close> and its opacity \<^verbatim>\<open>0\<close>, the element is
  still in the document while less than 300500 ms have passed, with one timer pending
  for its removal, and it is out of the document from 300500 ms on, when no timer is
  left. The style of every other element is untouched, nothing else is ever detached,
  and each error message is dismissed in exactly one of the two ways.
\<close>

theorem flash_dismissed_once:
  assumes fresh: "timers s = []"
  defines "r \<equiv> dom_content_loaded main_flash_js s"
  shows "(d < 300000 \<longrightarrow> elapse d r = r\<lparr>now := now s + d\<rparr>)
       \<and> (300000 \<le> d \<longrightarrow> clicked (elapse d r) = clicked s @ close_buttons s)
       \<and> (300000 \<le> d \<longrightarrow>
            count_list (clicked (elapse d r)) b =
              count_list (clicked s) b
              + length (filter (\<lambda>m. close_button s m = Some b) (error_messages s)))
       \<and> (300000 \<le> d \<longrightarrow> m \<in> set (bare_messages s) \<longrightarrow>
            el_transition (props (elapse d r) m) = ''opacity 0.5s''
            \<and> el_opacity (props (elapse d r) m) = ''0'')
       \<and> (m \<notin> set (bare_messages s) \<longrightarrow> props (elapse d r) m = props s m)
       \<and> (d < 300500 \<longrightarrow>
            detached (elapse d r) = detached s
            \<and> document_elements (elapse d r) = document_elements s)
       \<and> (300000 \<le> d \<longrightarrow> d < 300500 \<longrightarrow>
            timers (elapse d r) =
              map (\<lambda>m. (now s + 300500, RemoveElement m)) (bare_messages s))
       \<and> (300500 \<le> d \<longrightarrow>
            detached (elapse d r) = fold List.insert (bare_messages s) (detached s)
            \<and> timers (elapse d r) = [])
       \<and> (300500 \<le> d \<longrightarrow> m \<in> set (bare_messages s) \<longrightarrow>
            m \<notin> set (document_elements (elapse d r)))
       \<and> roots (elapse d r) = roots s
       \<and> length (close_buttons s) + length (bare_messages s) = length (error_messages s)"
proof -
  note fr = flash_run [OF fresh, folded r_def]
  note rd = flash_ready [of s, folded r_def]
  consider (before) "d < 300000" | (fading) "300000 \<le> d" "d < 300500" | (gone) "300500 \<le> d"
    by linarith
  then have run: "(d < 300000 \<longrightarrow> elapse d r = r\<lparr>now := now s + d\<rparr>)
       \<and> (300000 \<le> d \<longrightarrow> clicked (elapse d r) = clicked s @ close_buttons s)
       \<and> (300000 \<le> d \<longrightarrow> m \<in> set (bare_messages s) \<longrightarrow>
            el_transition (props (elapse d r) m) = ''opacity 0.5s''
            \<and> el_opacity (props (elapse d r) m) = ''0'')
       \<and> (m \<notin> set (bare_messages s) \<longrightarrow> props (elapse d r) m = props s m)
       \<and> (d < 300500 \<longrightarrow>
            detached (elapse d r) = detached s \<and> roots (elapse d r) = roots s)
       \<and> (300000 \<le> d \<longrightarrow> d < 300500 \<longrightarrow>
            timers (elapse d r) =
              map (\<lambda>m. (now s + 300500, RemoveElement m)) (bare_messages s))
       \<and> (300500 \<le> d \<longrightarrow>
            detached (elapse d r) = fold List.insert (bare_messages s) (detached s)
            \<and> roots (elapse d r) = roots s
            \<and> timers (elapse d r) = [])"
  proof cases
    case before
    then show ?thesis by (simp add: fr(1) rd)
  next
    case fading
    then show ?thesis by (simp add: fr(2) fr(4-8))
  next
    case gone
    then show ?thesis by (simp add: fr(3) fr(4-8))
  qed
  have cnt: "count_list (clicked (elapse d r)) b =
      count_list (clicked s) b
      + length (filter (\<lambda>m. close_button s m = Some b) (error_messages s))"
    if "300000 \<le> d"
    using run that by (simp add: close_buttons_def count_map_filter)
  have doc: "document_elements (elapse d r) = document_elements s" if "d < 300500"
    using run that by (simp add: document_elements_def)
  have out: "m \<notin> set (document_elements (elapse d r))"
    if "300500 \<le> d" "m \<in> set (bare_messages s)"
  proof -
    have "m \<in> set (detached (elapse d r))"
      using run that by (simp add: set_fold_insert)
    then show ?thesis
      using forest_handles_attached(2) [of "detached (elapse d r)" "roots (elapse d r)"]
      by (auto simp: document_elements_def)
  qed
  have len: "length (close_buttons s) + length (bare_messages s) = length (error_messages s)"
    by (simp add: close_buttons_def bare_messages_def length_map_filter)
  have rts: "roots (elapse d r) = roots s"
    by (simp add: elapse_def rd)
  show ?thesis
    using run cnt doc out len rts by simp
qed

theorem flash_dismissed_once_witness:
  "timers flash_page = []
   \<and> error_messages flash_page = [41, 43]
   \<and> close_button flash_page 41 = Some 42
   \<and> 43 \<in> set (bare_messages flash_page) \<and> 41 \<notin> set (bare_messages flash_page)
   \<and> (299999::nat) < 300000 \<and> (300000::nat) < 300500
   \<and> elapse 299999 (dom_content_loaded main_flash_js flash_page) =
       (dom_content_loaded main_flash_js flash_page)\<lparr>now := 299999\<rparr>
   \<and> clicked (elapse 300000 (dom_content_loaded main_flash_js flash_page)) = [42]
   \<and> count_list (clicked (elapse 300500 (dom_content_loaded main_flash_js flash_page))) 42 = 1
   \<and> el_opacity (props (elapse 300000 (dom_content_loaded main_flash_js flash_page)) 43) = ''0''
   \<and> el_transition (props (elapse 300000 (dom_content_loaded main_flash_js flash_page)) 43) =
       ''opacity 0.5s''
   \<and> props (elapse 300500 (dom_content_loaded main_flash_js flash_page)) 41 =
       props flash_page 41
   \<and> document_elements (elapse 300000 (dom_content_loaded main_flash_js flash_page)) =
       [40, 41, 42, 43]
   \<and> timers (elapse 300000 (dom_content_loaded main_flash_js flash_page)) =
       [(300500, RemoveElement 43)]
   \<and> detached (elapse 300500 (dom_content_loaded main_flash_js flash_page)) = [43]
   \<and> timers (elapse 300500 (dom_content_loaded main_flash_js flash_page)) = []
   \<and> 43 \<notin> set (document_elements (elapse 300500 (dom_content_loaded main_flash_js flash_page)))
   \<and> 41 \<in> set (document_elements (elapse 300500 (dom_content_loaded main_flash_js flash_page)))"
proof -
  note t = flash_dismissed_once [OF flash_fields(2)]
  have "detached (elapse 300500 (dom_content_loaded main_flash_js flash_page)) = [43]"
    and "roots (elapse 300500 (dom_content_loaded main_flash_js flash_page)) =
      [Tree 40 [Tree 41 [Tree 42 []], Tree 43 []]]"
    using t [of 300500 42 43] by (simp_all add: flash_messages flash_fields)
  then have "41 \<in> set (document_elements
      (elapse 300500 (dom_content_loaded main_flash_js flash_page)))"
    by (simp add: document_elements_def)
  then show ?thesis
    using t [of 299999 42 43] t [of 300000 42 43] t [of 300500 42 43] t [of 300500 42 41]
    by (simp add: flash_messages flash_fields flash_elements)
qed

end
